theory Spec2Isabelle
  imports
    Main
    "HOL-Library.Word"
    "HOL-Library.Signed_Division"
    "HOL-Library.Char_ord"
    "HOL-Library.AList"
    "HOL-Library.Sublist"
    "HOL-Library.Multiset"
begin

section \<open>Go values used by baskets.go\<close>

text \<open>
  Go's \<^verbatim>\<open>int\<close> (on a 64-bit platform) and \<^verbatim>\<open>int64\<close> are 64-bit two's-complement
  words: \<open>+\<close> and \<open>-\<close> wrap, comparisons are signed (\<open><s\<close>, read through \<open>sint\<close>).
  A Go string is a sequence of bytes, here a \<open>string\<close>; \<^verbatim>\<open>len\<close> is \<open>length\<close>.
  An \<^verbatim>\<open>error\<close> value is modelled by its message, the text that \<^verbatim>\<open>%s\<close> prints.
\<close>

type_synonym go_int = "64 word"
type_synonym int64 = "64 word"
type_synonym go_error = string

subsection \<open>Package strings\<close>

text \<open>\<^verbatim>\<open>strings.HasPrefix\<close>, \<^verbatim>\<open>HasSuffix\<close>, \<^verbatim>\<open>TrimPrefix\<close>, \<^verbatim>\<open>TrimSuffix\<close> and
  \<^verbatim>\<open>Contains\<close>, as the Go standard library defines them on byte strings.\<close>

definition HasPrefix :: "string \<Rightarrow> string \<Rightarrow> bool" where
  "HasPrefix s p = (length p \<le> length s \<and> take (length p) s = p)"

definition HasSuffix :: "string \<Rightarrow> string \<Rightarrow> bool" where
  "HasSuffix s x = (length x \<le> length s \<and> drop (length s - length x) s = x)"

definition TrimPrefix :: "string \<Rightarrow> string \<Rightarrow> string" where
  "TrimPrefix s p = (if HasPrefix s p then drop (length p) s else s)"

definition TrimSuffix :: "string \<Rightarrow> string \<Rightarrow> string" where
  "TrimSuffix s x = (if HasSuffix s x then take (length s - length x) s else s)"

fun Contains :: "string \<Rightarrow> string \<Rightarrow> bool" where
  "Contains [] substr = (substr = [])"
| "Contains (c # s) substr = (HasPrefix (c # s) substr \<or> Contains s substr)"

text \<open>What "occurs as a substring" means, independently of how \<open>Contains\<close> searches.\<close>

definition occurs_in :: "string \<Rightarrow> string \<Rightarrow> bool" where
  "occurs_in q s = (\<exists>before after. s = before @ q @ after)"

subsection \<open>http.Header\<close>

text \<open>
  \<^verbatim>\<open>http.Header\<close> is \<^verbatim>\<open>map[string][]string\<close>. The contents of such a map are an
  association list; the order of the list stands for the order in which a \<^verbatim>\<open>range\<close>
  loop happens to visit the keys, which Go leaves unspecified, so every statement below
  is proved for every order. A map is a reference: the maps themselves live in a store,
  addressed by their index, and a field of type \<^verbatim>\<open>http.Header\<close> holds an address
  (\<open>None\<close> for the nil map).
\<close>

type_synonym header = "(string \<times> string list) list"
type_synonym addr = nat

record state =
  maps :: "header list"
  logged :: "string list"

text \<open>Reading a map. Go only produces addresses by allocation; the \<open>else\<close> branch makes
  the function total and is never reached from a well-formed state.\<close>

definition map_at :: "state \<Rightarrow> addr \<Rightarrow> header" where
  "map_at st a = (if a < length (maps st) then maps st ! a else [])"

text \<open>Ranging over a nil map visits nothing.\<close>

definition entries :: "state \<Rightarrow> addr option \<Rightarrow> header" where
  "entries st h = (case h of None \<Rightarrow> [] | Some a \<Rightarrow> map_at st a)"

section \<open>The data model of baskets.go\<close>

record BasketConfig =
  ForwardURL :: string
  ProxyResponse :: bool
  InsecureTLS :: bool
  ExpandPath :: bool
  Capacity :: go_int

record RequestData =
  Date :: int64
  Header :: "addr option"
  ContentLength :: int64
  Body :: string
  Method :: string
  Path :: string
  Query :: string

section \<open>RequestData.Matches\<close>

text \<open>The two nested \<^verbatim>\<open>range\<close> loops of \<open>Matches\<close>, each leaving at the first hit.\<close>

fun any_value_contains :: "string list \<Rightarrow> string \<Rightarrow> bool" where
  "any_value_contains [] query = False"
| "any_value_contains (val # vals) query =
     (if Contains val query then True else any_value_contains vals query)"

fun any_header_contains :: "header \<Rightarrow> string \<Rightarrow> bool" where
  "any_header_contains [] query = False"
| "any_header_contains ((name, vals) # rest) query =
     (if any_value_contains vals query then True else any_header_contains rest query)"

definition Matches :: "state \<Rightarrow> RequestData \<Rightarrow> string \<Rightarrow> string \<Rightarrow> bool" where
  "Matches st req query in' =
     (let (inBody, inQuery, inHeaders) =
            (if in' = ''body'' then (True, False, False)
             else if in' = ''query'' then (False, True, False)
             else if in' = ''headers'' then (False, False, True)
             else (True, True, True))
      in if inBody \<and> Contains (Body req) query then True
         else if inQuery \<and> Contains (Query req) query then True
         else if inHeaders then any_header_contains (entries st (Header req)) query
         else False)"

text \<open>The header values of a record: every value of every name.\<close>

definition header_values :: "state \<Rightarrow> RequestData \<Rightarrow> string list" where
  "header_values st req = concat (map snd (entries st (Header req)))"

section \<open>Database statistics\<close>

record BasketInfo =
  Name :: string
  RequestsCount :: go_int
  RequestsTotalCount :: go_int
  LastRequestDate :: int64

text \<open>A slice field is \<open>None\<close> while it is nil. The elements are pointers to snapshots
  that \<open>Collect\<close> only reads, so a slice is modelled by the list of the snapshots pointed to.\<close>

record DatabaseStats =
  BasketsCount :: go_int
  EmptyBasketsCount :: go_int
  RequestsCount :: go_int
  RequestsTotalCount :: go_int
  MaxBasketSize :: go_int
  AvgBasketSize :: go_int
  TopBasketsBySize :: "BasketInfo list option"
  TopBasketsByDate :: "BasketInfo list option"

text \<open>The run-time panics that the statistics code can raise: \<^verbatim>\<open>make\<close> with a negative
  capacity, and integer division by zero. Running out of memory is outside the model.\<close>

datatype panic = MakesliceCapOutOfRange | IntegerDivideByZero

text \<open>\<^verbatim>\<open>len(col) < size\<close>: a length is a non-negative \<^verbatim>\<open>int\<close>, \<open>size'\<close> is signed.\<close>

definition len_less :: "'a list \<Rightarrow> go_int \<Rightarrow> bool" where
  "len_less col size' = (int (length col) < sint size')"

text \<open>The \<^verbatim>\<open>range\<close> loop of \<open>collectConditionally\<close>: the first index \<open>i\<close> with
  \<^verbatim>\<open>greater(basket, col[i])\<close>, where the loop leaves with an insertion.\<close>

fun first_greater ::
  "(BasketInfo \<Rightarrow> BasketInfo \<Rightarrow> bool) \<Rightarrow> BasketInfo \<Rightarrow> BasketInfo list \<Rightarrow> nat option" where
  "first_greater greater' basket [] = None"
| "first_greater greater' basket (b # col) =
     (if greater' basket b then Some 0
      else map_option Suc (first_greater greater' basket col))"

text \<open>
  The three statements of the insertion, on a slice of pointers (\<open>None\<close> is nil):
  \<^verbatim>\<open>col = append(col, nil)\<close> when there is room, \<^verbatim>\<open>copy(col[i+1:], col[i:])\<close>, which moves
  the elements from \<open>i\<close> on one place to the right inside the slice and so loses the last
  one, and \<^verbatim>\<open>col[i] = basket\<close>.
\<close>

definition copy_up :: "'a list \<Rightarrow> nat \<Rightarrow> 'a list" where
  "copy_up col i = take (Suc i) col @ take (length col - Suc i) (drop i col)"

definition insert_steps :: "'a option list \<Rightarrow> nat \<Rightarrow> 'a \<Rightarrow> bool \<Rightarrow> 'a option list" where
  "insert_steps col i basket room =
     (let col1 = (if room then col @ [None] else col);
          col2 = copy_up col1 i
      in col2[i := Some basket])"

text \<open>Their net effect on the snapshots pointed to (lemma \<open>insert_steps_net\<close> below):
  \<open>basket\<close> is put at index \<open>i\<close>, and the result is cut to the new length.\<close>

definition insert_at :: "'a list \<Rightarrow> nat \<Rightarrow> 'a \<Rightarrow> bool \<Rightarrow> 'a list" where
  "insert_at col i basket room =
     take (if room then Suc (length col) else length col) (take i col @ basket # drop i col)"

definition collectConditionally ::
  "BasketInfo list option \<Rightarrow> BasketInfo \<Rightarrow> go_int \<Rightarrow> (BasketInfo \<Rightarrow> BasketInfo \<Rightarrow> bool)
     \<Rightarrow> panic + BasketInfo list" where
  "collectConditionally col basket size' greater' =
     (case col of
        None \<Rightarrow> if size' <s 0 then Inl MakesliceCapOutOfRange else Inr [basket]
      | Some c \<Rightarrow>
          (case first_greater greater' basket c of
             Some i \<Rightarrow> Inr (insert_at c i basket (len_less c size'))
           | None \<Rightarrow> if len_less c size' then Inr (c @ [basket]) else Inr c))"

text \<open>\<open>Collect\<close> updates the statistics it is called on; the model returns the updated
  value, or the panic. The receiver and the snapshot are taken to be non-nil pointers.\<close>

definition Collect :: "DatabaseStats \<Rightarrow> BasketInfo \<Rightarrow> go_int \<Rightarrow> panic + DatabaseStats" where
  "Collect stats basket max' =
     (let s1 = stats\<lparr>BasketsCount := BasketsCount stats + 1\<rparr>;
          s2 = (if BasketInfo.RequestsTotalCount basket = 0
                then s1\<lparr>EmptyBasketsCount := EmptyBasketsCount s1 + 1\<rparr> else s1);
          s3 = s2\<lparr>RequestsCount := RequestsCount s2 + BasketInfo.RequestsCount basket\<rparr>;
          s4 = s3\<lparr>RequestsTotalCount :=
                    RequestsTotalCount s3 + BasketInfo.RequestsTotalCount basket\<rparr>;
          s5 = (if MaxBasketSize s4 <s BasketInfo.RequestsTotalCount basket
                then s4\<lparr>MaxBasketSize := BasketInfo.RequestsTotalCount basket\<rparr> else s4)
      in case collectConditionally (TopBasketsBySize s5) basket max'
                (\<lambda>b1 b2. BasketInfo.RequestsTotalCount b2 <s BasketInfo.RequestsTotalCount b1) of
           Inl p \<Rightarrow> Inl p
         | Inr bySize \<Rightarrow>
             (case collectConditionally (TopBasketsByDate s5) basket max'
                     (\<lambda>b1 b2. LastRequestDate b2 <s LastRequestDate b1) of
                Inl p \<Rightarrow> Inl p
              | Inr byDate \<Rightarrow>
                  Inr (s5\<lparr>TopBasketsBySize := Some bySize, TopBasketsByDate := Some byDate\<rparr>)))"

text \<open>Go's \<^verbatim>\<open>/\<close> on \<^verbatim>\<open>int\<close>: a panic on a zero divisor, otherwise the quotient rounded
  toward zero and wrapped to 64 bits.\<close>

definition go_div :: "go_int \<Rightarrow> go_int \<Rightarrow> panic + go_int" where
  "go_div a b = (if b = 0 then Inl IntegerDivideByZero
                 else Inr (word_of_int (sint a sdiv sint b)))"

definition UpdateAvarage :: "DatabaseStats \<Rightarrow> panic + DatabaseStats" where
  "UpdateAvarage stats =
     (if EmptyBasketsCount stats <s BasketsCount stats then
        (case go_div (RequestsTotalCount stats)
                     (BasketsCount stats - EmptyBasketsCount stats) of
           Inl p \<Rightarrow> Inl p
         | Inr q \<Rightarrow> Inr (stats\<lparr>AvgBasketSize := q\<rparr>))
      else Inr (stats\<lparr>AvgBasketSize := 0\<rparr>))"

text \<open>The zero value \<^verbatim>\<open>DatabaseStats{}\<close>, and a sequence of snapshots collected into a
  state one after the other with the same bound, stopping at a panic.\<close>

definition zero_stats :: DatabaseStats where
  "zero_stats = \<lparr>BasketsCount = 0, EmptyBasketsCount = 0, RequestsCount = 0,
                 RequestsTotalCount = 0, MaxBasketSize = 0, AvgBasketSize = 0,
                 TopBasketsBySize = None, TopBasketsByDate = None\<rparr>"

fun collect_all :: "DatabaseStats \<Rightarrow> BasketInfo list \<Rightarrow> go_int \<Rightarrow> panic + DatabaseStats" where
  "collect_all stats [] max' = Inr stats"
| "collect_all stats (basket # rest) max' =
     (case Collect stats basket max' of
        Inl p \<Rightarrow> Inl p
      | Inr stats' \<Rightarrow> collect_all stats' rest max')"

text \<open>A nil slice has no elements.\<close>

definition elems :: "'a list option \<Rightarrow> 'a list" where
  "elems col = (case col of None \<Rightarrow> [] | Some c \<Rightarrow> c)"

text \<open>The quotient of two integers rounded toward zero, for a positive divisor, written
  without reference to Go: the words of the specification.\<close>

definition quotient_toward_zero :: "int \<Rightarrow> int \<Rightarrow> int" where
  "quotient_toward_zero n d = (if 0 \<le> n then n div d else - ((- n) div d))"

text \<open>The denominator of the average, as an integer.\<close>

definition denominator :: "DatabaseStats \<Rightarrow> int" where
  "denominator stats = sint (BasketsCount stats) - sint (EmptyBasketsCount stats)"

text \<open>The order the specification gives the top lists: largest key first, and among
  equal keys the snapshot seen first. \<open>sort_key\<close> is a stable insertion sort.\<close>

definition by_size :: "BasketInfo \<Rightarrow> int" where
  "by_size b = sint (BasketInfo.RequestsTotalCount b)"

definition by_date :: "BasketInfo \<Rightarrow> int" where
  "by_date b = sint (LastRequestDate b)"

definition top_of :: "(BasketInfo \<Rightarrow> int) \<Rightarrow> nat \<Rightarrow> BasketInfo list \<Rightarrow> BasketInfo list" where
  "top_of key k xs = take k (sort_key (\<lambda>b. - key b) xs)"

text \<open>Putting a snapshot into a list sorted by \<open>f\<close> behind every element that is not
  larger: the unbounded insertion that the bounded one of \<open>collectConditionally\<close> is
  compared with.\<close>

definition put_last :: "('a \<Rightarrow> int) \<Rightarrow> 'a \<Rightarrow> 'a list \<Rightarrow> 'a list" where
  "put_last f b ys =
     takeWhile (\<lambda>y. f y \<le> f b) ys @ b # dropWhile (\<lambda>y. f y \<le> f b) ys"

text \<open>What a top list holds once the snapshots \<open>seen\<close> have been collected with a bound
  of at least 1: nil before the first one, the top \<open>k\<close> of them afterwards.\<close>

definition top_inv :: "(BasketInfo \<Rightarrow> int) \<Rightarrow> nat \<Rightarrow> BasketInfo list \<Rightarrow> BasketInfo list option \<Rightarrow> bool" where
  "top_inv key k seen col = (case col of None \<Rightarrow> seen = [] | Some c \<Rightarrow> c = top_of key k seen)"

subsection \<open>Examples\<close>

definition snapshot_a :: BasketInfo where
  "snapshot_a = \<lparr>Name = ''a'', RequestsCount = 5, RequestsTotalCount = 5, LastRequestDate = 10\<rparr>"

definition snapshot_b :: BasketInfo where
  "snapshot_b = \<lparr>Name = ''b'', RequestsCount = 0, RequestsTotalCount = 0, LastRequestDate = 0\<rparr>"

definition snapshot_c :: BasketInfo where
  "snapshot_c = \<lparr>Name = ''c'', RequestsCount = 7, RequestsTotalCount = 7, LastRequestDate = 30\<rparr>"

definition stats_minus7 :: DatabaseStats where
  "stats_minus7 = zero_stats\<lparr>BasketsCount := 3, EmptyBasketsCount := 1,
                             RequestsTotalCount := - 7\<rparr>"

text \<open>A state that no sequence of calls of \<open>Collect\<close> on the zero value reaches in
  practice: the largest count of baskets, a negative count of empty ones, the least total.\<close>

definition overflow_stats :: DatabaseStats where
  "overflow_stats = zero_stats\<lparr>BasketsCount := 9223372036854775807,
                               EmptyBasketsCount := - 1,
                               RequestsTotalCount := - 9223372036854775808\<rparr>"

section \<open>The standard library around Forward\<close>

subsection \<open>Header names and the methods of http.Header\<close>

text \<open>
  \<^verbatim>\<open>textproto.CanonicalMIMEHeaderKey\<close>: a name made of token bytes only gets an upper-case
  letter at the start and after each hyphen and lower-case letters elsewhere; any other
  name is returned as it is. \<^verbatim>\<open>Add\<close>, \<^verbatim>\<open>Set\<close> and \<^verbatim>\<open>Del\<close> of \<^verbatim>\<open>http.Header\<close> all
  work on the canonical form of the name they are given.
\<close>

definition is_lower :: "char \<Rightarrow> bool" where
  "is_lower c = (CHR ''a'' \<le> c \<and> c \<le> CHR ''z'')"

definition is_upper :: "char \<Rightarrow> bool" where
  "is_upper c = (CHR ''A'' \<le> c \<and> c \<le> CHR ''Z'')"

definition is_digit :: "char \<Rightarrow> bool" where
  "is_digit c = (CHR ''0'' \<le> c \<and> c \<le> CHR ''9'')"

definition to_upper :: "char \<Rightarrow> char" where
  "to_upper c = char_of (of_char c - (32::nat))"

definition to_lower :: "char \<Rightarrow> char" where
  "to_lower c = char_of (of_char c + (32::nat))"

definition is_token_byte :: "char \<Rightarrow> bool" where
  "is_token_byte c =
     (is_lower c \<or> is_upper c \<or> is_digit c
      \<or> c \<in> set (''!#$%&*+-.^_|~'' @ [CHR 0x27, CHR 0x60]))"

fun canonical_loop :: "bool \<Rightarrow> string \<Rightarrow> string" where
  "canonical_loop upper [] = []"
| "canonical_loop upper (c # cs) =
     (let c' = (if upper \<and> is_lower c then to_upper c
                else if \<not> upper \<and> is_upper c then to_lower c
                else c)
      in c' # canonical_loop (c' = CHR ''-'') cs)"

definition CanonicalMIMEHeaderKey :: "string \<Rightarrow> string" where
  "CanonicalMIMEHeaderKey s = (if list_all is_token_byte s then canonical_loop True s else s)"

text \<open>\<^verbatim>\<open>h[key]\<close> of a key that is not in the map is the nil slice.\<close>

definition values_of :: "header \<Rightarrow> string \<Rightarrow> string list" where
  "values_of h key = (case map_of h key of None \<Rightarrow> [] | Some vs \<Rightarrow> vs)"

definition hdr_Add :: "header \<Rightarrow> string \<Rightarrow> string \<Rightarrow> header" where
  "hdr_Add h key val =
     (let k = CanonicalMIMEHeaderKey key in AList.update k (values_of h k @ [val]) h)"

definition hdr_Set :: "header \<Rightarrow> string \<Rightarrow> string \<Rightarrow> header" where
  "hdr_Set h key val = AList.update (CanonicalMIMEHeaderKey key) [val] h"

definition hdr_Del :: "header \<Rightarrow> string \<Rightarrow> header" where
  "hdr_Del h key = AList.delete (CanonicalMIMEHeaderKey key) h"

text \<open>The same three methods called on a map in the store: the map at the address is
  replaced, every other map stays.\<close>

definition update_map :: "addr \<Rightarrow> (header \<Rightarrow> header) \<Rightarrow> state \<Rightarrow> state" where
  "update_map a f st = st\<lparr>maps := (maps st)[a := f (map_at st a)]\<rparr>"

definition Header_Add :: "addr \<Rightarrow> string \<Rightarrow> string \<Rightarrow> state \<Rightarrow> state" where
  "Header_Add a key val st = update_map a (\<lambda>h. hdr_Add h key val) st"

definition Header_Set :: "addr \<Rightarrow> string \<Rightarrow> string \<Rightarrow> state \<Rightarrow> state" where
  "Header_Set a key val st = update_map a (\<lambda>h. hdr_Set h key val) st"

definition Header_Del :: "addr \<Rightarrow> string \<Rightarrow> state \<Rightarrow> state" where
  "Header_Del a key st = update_map a (\<lambda>h. hdr_Del h key) st"

text \<open>\<^verbatim>\<open>make(http.Header)\<close>: a new, empty map at an address not in use.\<close>

definition new_map :: "state \<Rightarrow> addr \<times> state" where
  "new_map st = (length (maps st), st\<lparr>maps := maps st @ [[]]\<rparr>)"

subsection \<open>URLs, requests, responses\<close>

text \<open>\<^verbatim>\<open>url.URL\<close>, with the user information as the text it is printed with.\<close>

record URL =
  url_Scheme :: string
  url_Opaque :: string
  url_User :: "string option"
  url_Host :: string
  url_Path :: string
  url_RawPath :: string
  url_ForceQuery :: bool
  url_RawQuery :: string
  url_Fragment :: string
  url_RawFragment :: string

text \<open>The fields of \<^verbatim>\<open>http.Request\<close> that \<^verbatim>\<open>http.NewRequest\<close> fills from its arguments.\<close>

record Request =
  req_Method :: string
  req_URL :: URL
  req_Header :: addr
  req_Body :: string
  req_ContentLength :: int64
  req_Host :: string

text \<open>An \<^verbatim>\<open>http.Response\<close> is handed to the caller and shares nothing with the receiver of
  \<open>Forward\<close>; its header is held by value.\<close>

record Response =
  resp_StatusCode :: int
  resp_Header :: header
  resp_Body :: string

text \<open>
  The parts of the library that this development does not look into are parameters:
  \<^verbatim>\<open>url.ParseRequestURI\<close>, \<^verbatim>\<open>(*url.URL).String\<close>, \<^verbatim>\<open>url.Parse\<close> (which
  \<^verbatim>\<open>http.NewRequest\<close> calls on the text it is given) and the \<^verbatim>\<open>%q\<close> verb of \<^verbatim>\<open>fmt\<close>.
  The statements about \<open>Forward\<close> hold for every choice of them.
\<close>

record netlib =
  ParseRequestURI :: "string \<Rightarrow> go_error + URL"
  URL_String :: "URL \<Rightarrow> string"
  URL_Parse :: "string \<Rightarrow> go_error + URL"
  fmt_q :: "string \<Rightarrow> string"

text \<open>\<^verbatim>\<open>(*http.Client).Do\<close>: a function of the request and of the contents of its header
  that returns an error or a response. It writes to no map.\<close>

type_synonym client = "Request \<Rightarrow> header \<Rightarrow> go_error + Response"

text \<open>
  \<^verbatim>\<open>http.NewRequest\<close>: an empty method means GET; a method must be a non-empty token; the
  URL text is parsed again and an empty port is dropped from the host; the request gets a
  new, empty header map. The body is read from \<^verbatim>\<open>strings.NewReader\<close> of the argument.
\<close>

definition validMethod :: "string \<Rightarrow> bool" where
  "validMethod method = (0 < length method \<and> list_all is_token_byte method)"

definition removeEmptyPort :: "string \<Rightarrow> string" where
  "removeEmptyPort host = TrimSuffix host '':''"

definition NewRequest ::
  "netlib \<Rightarrow> string \<Rightarrow> string \<Rightarrow> string \<Rightarrow> state \<Rightarrow> go_error + (Request \<times> state)" where
  "NewRequest lib method urlStr body st =
     (let method1 = (if method = [] then ''GET'' else method) in
      if \<not> validMethod method1
      then Inl (''net/http: invalid method '' @ fmt_q lib method1)
      else (case URL_Parse lib urlStr of
              Inl err \<Rightarrow> Inl err
            | Inr u \<Rightarrow>
                (let u1 = u\<lparr>url_Host := removeEmptyPort (url_Host u)\<rparr>;
                     (a, st1) = new_map st
                 in Inr (\<lparr>req_Method = method1, req_URL = u1, req_Header = a,
                           req_Body = body, req_ContentLength = of_nat (length body),
                           req_Host = url_Host u1\<rparr>, st1))))"

definition StatusBadGateway :: int where
  "StatusBadGateway = 502"

section \<open>RequestData.Forward\<close>

definition DoNotForwardHeader :: string where
  "DoNotForwardHeader = ''X-Do-Not-Forward''"

definition expandURL :: "string \<Rightarrow> string \<Rightarrow> string \<Rightarrow> string" where
  "expandURL url original basket =
     TrimSuffix url ''/'' @ TrimPrefix original (''/'' @ basket)"

definition forwardHeadersCleanup :: "Request \<Rightarrow> state \<Rightarrow> state" where
  "forwardHeadersCleanup req st =
     (let st1 = Header_Del (req_Header req) ''Connection'' st;
          st2 = Header_Del (req_Header req) ''Upgrade'' st1
      in Header_Del (req_Header req) ''TE'' st2)"

text \<open>
  \<open>Forward\<close> is given in three stages, each the prefix of the function up to a point
  where a claim looks at it. First the URL that is sent for: parsing the configured
  URL, expanding the path, appending the query.
\<close>

definition forward_target ::
  "netlib \<Rightarrow> RequestData \<Rightarrow> BasketConfig \<Rightarrow> string \<Rightarrow> go_error + URL" where
  "forward_target lib req config basket =
     (case ParseRequestURI lib (ForwardURL config) of
        Inl err \<Rightarrow> Inl (''invalid forward URL: '' @ ForwardURL config @ '' - '' @ err)
      | Inr forwardURL \<Rightarrow>
          (let u1 = (if ExpandPath config \<and> length (Path req) > length basket + 1
                     then forwardURL\<lparr>url_Path :=
                            expandURL (url_Path forwardURL) (Path req) basket\<rparr>
                     else forwardURL);
               u2 = (if length (Query req) > 0
                     then (if length (url_RawQuery u1) > 0
                           then u1\<lparr>url_RawQuery := url_RawQuery u1 @ ''&'' @ Query req\<rparr>
                           else u1\<lparr>url_RawQuery := Query req\<rparr>)
                     else u1)
           in Inr u2))"

text \<open>The two nested loops that copy the headers, one \<^verbatim>\<open>Add\<close> for each value.\<close>

fun add_values :: "addr \<Rightarrow> string \<Rightarrow> string list \<Rightarrow> state \<Rightarrow> state" where
  "add_values a header [] st = st"
| "add_values a header (val # vals) st = add_values a header vals (Header_Add a header val st)"

fun copy_headers :: "addr \<Rightarrow> header \<Rightarrow> state \<Rightarrow> state" where
  "copy_headers a [] st = st"
| "copy_headers a ((header, vals) # rest) st = copy_headers a rest (add_values a header vals st)"

text \<open>Then the request that is handed to the client: the new request, the copied headers,
  the clean-up, the marker.\<close>

definition forward_request ::
  "netlib \<Rightarrow> RequestData \<Rightarrow> BasketConfig \<Rightarrow> string \<Rightarrow> state \<Rightarrow> go_error + (Request \<times> state)" where
  "forward_request lib req config basket st =
     (case forward_target lib req config basket of
        Inl err \<Rightarrow> Inl err
      | Inr forwardURL \<Rightarrow>
          (case NewRequest lib (Method req) (URL_String lib forwardURL) (Body req) st of
             Inl err \<Rightarrow> Inl (''failed to create forward request: '' @ err)
           | Inr (forwardReq, st1) \<Rightarrow>
               (let st2 = copy_headers (req_Header forwardReq) (entries st1 (Header req)) st1;
                    st3 = forwardHeadersCleanup forwardReq st2;
                    st4 = Header_Set (req_Header forwardReq) DoNotForwardHeader ''1'' st3
                in Inr (forwardReq, st4))))"

text \<open>And the whole function. The result is the pair that Go returns, a response or nil
  and an error or nil, together with the state it leaves. The receiver and the client
  are taken to be non-nil pointers. \<^verbatim>\<open>log.Printf\<close> adds its line to \<open>logged\<close>.\<close>

definition Forward ::
  "netlib \<Rightarrow> RequestData \<Rightarrow> client \<Rightarrow> BasketConfig \<Rightarrow> string \<Rightarrow> state
     \<Rightarrow> (Response option \<times> go_error option) \<times> state" where
  "Forward lib req client config basket st =
     (case forward_request lib req config basket st of
        Inl err \<Rightarrow> ((None, Some err), st)
      | Inr (forwardReq, st1) \<Rightarrow>
          (case client forwardReq (map_at st1 (req_Header forwardReq)) of
             Inl err \<Rightarrow>
               (let st2 = st1\<lparr>logged := logged st1 @
                            [''[warn] failed to forward request for basket: '' @ basket
                               @ '' - '' @ err]\<rparr>;
                    badGatewayResp =
                      \<lparr>resp_StatusCode = StatusBadGateway,
                       resp_Header = hdr_Set [] ''Content-Type'' ''text/plain'',
                       resp_Body = ''Failed to forward request: '' @ err\<rparr>
                in ((Some badGatewayResp, None), st2))
           | Inr response \<Rightarrow> ((Some response, None), st1)))"

section \<open>Notions used to state the claims about Forward\<close>

text \<open>The values that a captured header contributes under the canonical name \<open>k\<close>: the
  values of every captured name whose canonical form is \<open>k\<close>, in the order visited.\<close>

definition carried :: "header \<Rightarrow> string \<Rightarrow> string list" where
  "carried hdr k =
     concat (map snd (filter (\<lambda>e. CanonicalMIMEHeaderKey (fst e) = k) hdr))"

text \<open>What the map \<open>h\<close> holds under \<open>k\<close> once the values \<open>vs\<close> have been added there one
  by one: nothing if it held nothing and no value came, the old values and then the new.\<close>

definition grown :: "header \<Rightarrow> string \<Rightarrow> string list \<Rightarrow> string list option" where
  "grown h k vs = (if map_of h k = None \<and> vs = [] then None else Some (values_of h k @ vs))"

text \<open>What \<open>Forward\<close> returns once the client has answered: the response of the client,
  or the response it makes itself of the client's error; in both cases no error.\<close>

definition answer_of :: "go_error + Response \<Rightarrow> Response option \<times> go_error option" where
  "answer_of res =
     (case res of
        Inl err \<Rightarrow>
          (Some \<lparr>resp_StatusCode = 502,
                  resp_Header = [(''Content-Type'', [''text/plain''])],
                  resp_Body = ''Failed to forward request: '' @ err\<rparr>, None)
      | Inr response \<Rightarrow> (Some response, None))"

subsection \<open>Examples\<close>

definition example_state :: state where
  "example_state = \<lparr>maps = [[(''X-Tag'', [''beta'', ''alpha''])], []], logged = []\<rparr>"

definition example_record :: RequestData where
  "example_record = \<lparr>Date = 0, Header = Some 0, ContentLength = 5, Body = ''hello'',
                      Method = ''GET'', Path = ''/b1/y/z'', Query = ''k=1''\<rparr>"

definition bare_record :: RequestData where
  "bare_record = \<lparr>Date = 0, Header = None, ContentLength = 0, Body = [],
                   Method = ''POST'', Path = ''/b1'', Query = []\<rparr>"

text \<open>
  A stand-in for the URL functions, used only to run the model on the examples: it reads
  and prints URLs of the shape \<^verbatim>\<open>scheme://host/path?query\<close>, on which it agrees with
  \<^verbatim>\<open>net/url\<close>, and refuses every other text.
\<close>

definition simple_parse :: "string \<Rightarrow> go_error + URL" where
  "simple_parse s =
     (let scheme = takeWhile (\<lambda>c. c \<noteq> CHR '':'') s;
          rest = drop (length scheme) s
      in if scheme = [] \<or> \<not> HasPrefix rest ''://''
         then Inl (''parse '' @ s @ '': not of the shape scheme://host/path?query'')
         else (let rest2 = drop 3 rest;
                   host = takeWhile (\<lambda>c. c \<noteq> CHR ''/'' \<and> c \<noteq> CHR ''?'') rest2;
                   rest3 = drop (length host) rest2;
                   path = takeWhile (\<lambda>c. c \<noteq> CHR ''?'') rest3;
                   query = drop (Suc (length path)) rest3
               in Inr \<lparr>url_Scheme = scheme, url_Opaque = [], url_User = None,
                        url_Host = host, url_Path = path, url_RawPath = [],
                        url_ForceQuery = False, url_RawQuery = query,
                        url_Fragment = [], url_RawFragment = []\<rparr>))"

definition simple_String :: "URL \<Rightarrow> string" where
  "simple_String u =
     url_Scheme u @ ''://'' @ url_Host u @ url_Path u
       @ (if url_RawQuery u = [] then [] else ''?'' @ url_RawQuery u)"

definition simple_lib :: netlib where
  "simple_lib = \<lparr>ParseRequestURI = simple_parse, URL_String = simple_String,
                  URL_Parse = simple_parse,
                  fmt_q = (\<lambda>s. [CHR 0x22] @ s @ [CHR 0x22])\<rparr>"

text \<open>The URL that \<^verbatim>\<open>net/url\<close> reads from \<^verbatim>\<open>http://up/x/\<close>.\<close>

definition up_x :: URL where
  "up_x = \<lparr>url_Scheme = ''http'', url_Opaque = [], url_User = None, url_Host = ''up'',
            url_Path = ''/x/'', url_RawPath = [], url_ForceQuery = False,
            url_RawQuery = [], url_Fragment = [], url_RawFragment = []\<rparr>"

definition example_config :: BasketConfig where
  "example_config = \<lparr>ForwardURL = ''http://up/x/'', ProxyResponse = False,
                      InsecureTLS = False, ExpandPath = True, Capacity = 200\<rparr>"

text \<open>A client whose transport fails, with the text that \<^verbatim>\<open>(*http.Client).Do\<close> gives
  such an error (the operation, the quoted URL, the cause), and a client that answers.\<close>

definition refused :: go_error where
  "refused = ''Get '' @ [CHR 0x22] @ ''http://up/x/y/z?k=1'' @ [CHR 0x22]
               @ '': dial tcp: lookup up: no such host''"

definition failing_client :: client where
  "failing_client req h = Inl refused"

definition ok_response :: Response where
  "ok_response = \<lparr>resp_StatusCode = 200, resp_Header = [], resp_Body = ''ok''\<rparr>"

definition ok_client :: client where
  "ok_client req h = Inr ok_response"

text \<open>Records and configurations for the examples.\<close>

definition methodless_record :: RequestData where
  "methodless_record = example_record\<lparr>Method := []\<rparr>"

definition unparsable_config :: BasketConfig where
  "unparsable_config = example_config\<lparr>ForwardURL := ''nowhere''\<rparr>"

definition query_config :: BasketConfig where
  "query_config = example_config\<lparr>ForwardURL := ''http://up/x?a=b''\<rparr>"

definition hop_state :: state where
  "hop_state = \<lparr>maps = [[(''X-Tag'', [''beta'', ''alpha'']), (''Connection'', [''close'']),
                          (''Te'', [''trailers'']), (''X-Do-Not-Forward'', [''0''])]],
                 logged = []\<rparr>"

definition lower_state :: state where
  "lower_state = \<lparr>maps = [[(''x-tag'', [''v''])]], logged = []\<rparr>"

definition sent_url :: URL where
  "sent_url = up_x\<lparr>url_Path := ''/x/y/z'', url_RawQuery := ''k=1''\<rparr>"

definition sent_request :: Request where
  "sent_request = \<lparr>req_Method = ''GET'', req_URL = sent_url, req_Header = 1,
                    req_Body = ''hello'', req_ContentLength = 5, req_Host = ''up''\<rparr>"

text \<open>
  A second stand-in, which treats the fragment as \<^verbatim>\<open>net/url\<close> does: \<^verbatim>\<open>url.Parse\<close> cuts
  the text at the first \<^verbatim>\<open>#\<close> and keeps the rest as the fragment, \<^verbatim>\<open>url.ParseRequestURI\<close>
  takes the text to have no fragment, and \<^verbatim>\<open>String\<close> prints the query as it is and the
  fragment last.
\<close>

definition fragment_parse :: "string \<Rightarrow> go_error + URL" where
  "fragment_parse s =
     (let text = takeWhile (\<lambda>c. c \<noteq> CHR ''#'') s;
          frag = drop (Suc (length text)) s
      in case simple_parse text of
           Inl err \<Rightarrow> Inl err
         | Inr u \<Rightarrow> Inr (u\<lparr>url_Fragment := frag\<rparr>))"

definition fragment_String :: "URL \<Rightarrow> string" where
  "fragment_String u =
     simple_String u @ (if url_Fragment u = [] then [] else ''#'' @ url_Fragment u)"

definition fragment_lib :: netlib where
  "fragment_lib = \<lparr>ParseRequestURI = simple_parse, URL_String = fragment_String,
                    URL_Parse = fragment_parse,
                    fmt_q = (\<lambda>s. [CHR 0x22] @ s @ [CHR 0x22])\<rparr>"

definition hash_record :: RequestData where
  "hash_record = example_record\<lparr>Query := ''k=1#f''\<rparr>"

text \<open>The URL that \<^verbatim>\<open>net/url\<close> reads from \<^verbatim>\<open>http://up/x/y/z?a=b&k=1\<close>.\<close>

definition merged_url :: URL where
  "merged_url = \<lparr>url_Scheme = ''http'', url_Opaque = [], url_User = None, url_Host = ''up'',
                  url_Path = ''/x/y/z'', url_RawPath = [], url_ForceQuery = False,
                  url_RawQuery = ''a=b&k=1'', url_Fragment = [], url_RawFragment = []\<rparr>"

section \<open>Properties of the string functions\<close>

lemma HasPrefix_iff: "HasPrefix s p \<longleftrightarrow> (\<exists>after. s = p @ after)"
proof
  assume "HasPrefix s p"
  then have "s = p @ drop (length p) s"
    by (metis HasPrefix_def append_take_drop_id)
  then show "\<exists>after. s = p @ after" ..
next
  assume "\<exists>after. s = p @ after"
  then show "HasPrefix s p" by (auto simp: HasPrefix_def)
qed

lemma HasPrefix_Nil [simp]: "HasPrefix s []"
  by (simp add: HasPrefix_def)

lemma Contains_Nil [simp]: "Contains s []"
  by (cases s) simp_all

lemma Contains_occurs: "Contains s q \<longleftrightarrow> occurs_in q s"
proof (induction s)
  case Nil
  show ?case by (auto simp: occurs_in_def)
next
  case (Cons c s)
  show ?case
  proof
    assume "Contains (c # s) q"
    then consider "HasPrefix (c # s) q" | "Contains s q" by auto
    then show "occurs_in q (c # s)"
    proof cases
      case 1
      then obtain after where "c # s = q @ after" by (auto simp: HasPrefix_iff)
      then have "c # s = [] @ q @ after" by simp
      then show ?thesis unfolding occurs_in_def by blast
    next
      case 2
      then obtain before after where "s = before @ q @ after"
        using Cons.IH by (auto simp: occurs_in_def)
      then have "c # s = (c # before) @ q @ after" by simp
      then show ?thesis unfolding occurs_in_def by blast
    qed
  next
    assume "occurs_in q (c # s)"
    then obtain before after where eq: "c # s = before @ q @ after"
      by (auto simp: occurs_in_def)
    show "Contains (c # s) q"
    proof (cases before)
      case Nil
      with eq have "HasPrefix (c # s) q" by (auto simp: HasPrefix_iff)
      then show ?thesis by simp
    next
      case (Cons b before')
      with eq have "s = before' @ q @ after" by simp
      then have "occurs_in q s" unfolding occurs_in_def by blast
      then show ?thesis using Cons.IH by simp
    qed
  qed
qed

lemma any_value_contains_iff:
  "any_value_contains vals q \<longleftrightarrow> (\<exists>v. v \<in> set vals \<and> Contains v q)"
  by (induction vals) auto

lemma any_header_contains_iff:
  "any_header_contains h q \<longleftrightarrow> (\<exists>v. v \<in> set (concat (map snd h)) \<and> Contains v q)"
  by (induction h q rule: any_header_contains.induct) (auto simp: any_value_contains_iff)

section \<open>Claims about Matches\<close>

text \<open>
  C2. \<open>Matches\<close> returns true exactly when the query occurs as a substring (bytes compared
  as they are, so case-sensitively) in a field selected by the scope: the body for
  \<open>body\<close>, the raw query for \<open>query\<close>, some single header value for \<open>headers\<close>, and
  any of the three for every other scope, the empty scope included.
\<close>

theorem Matches_scope:
  "Matches st r q s =
     (if s = ''body'' then occurs_in q (Body r)
      else if s = ''query'' then occurs_in q (Query r)
      else if s = ''headers'' then (\<exists>v. v \<in> set (header_values st r) \<and> occurs_in q v)
      else occurs_in q (Body r) \<or> occurs_in q (Query r)
           \<or> (\<exists>v. v \<in> set (header_values st r) \<and> occurs_in q v))"
  by (auto simp: Matches_def header_values_def any_header_contains_iff Contains_occurs)


theorem Matches_scope_witness:
  "Matches example_state example_record ''alpha'' ''headers''
   \<and> \<not> Matches example_state example_record ''alpha'' ''body''
   \<and> Matches example_state example_record ''ell'' []"
proof -
  have h: "header_values example_state example_record = [''beta'', ''alpha'']"
    by (simp add: header_values_def entries_def map_at_def example_state_def example_record_def)
  have 1: "occurs_in ''alpha'' ''alpha''"
    unfolding occurs_in_def by (rule exI [of _ "[]"], rule exI [of _ "[]"]) simp
  have 2: "\<not> occurs_in ''alpha'' ''hello''"
    by (simp add: Contains_occurs [symmetric] HasPrefix_def)
  have 3: "occurs_in ''ell'' ''hello''"
    by (simp add: Contains_occurs [symmetric] HasPrefix_def)
  have b: "Body example_record = ''hello''"
    by (simp add: example_record_def)
  show ?thesis
    using Matches_scope [of example_state example_record "''alpha''" "''headers''"]
      Matches_scope [of example_state example_record "''alpha''" "''body''"]
      Matches_scope [of example_state example_record "''ell''" "[]"]
      h 1 2 3 b
    by auto
qed

text \<open>
  C9. With the empty query \<open>Matches\<close> is true for the scopes \<open>body\<close> and \<open>query\<close> and
  for every scope other than \<open>headers\<close>, the empty string being a substring of every
  string; for the scope \<open>headers\<close> it is true exactly when the record has at least one
  header value, so it is false for a record without headers.
\<close>

theorem Matches_empty_query:
  "Matches st r [] s = (if s = ''headers'' then header_values st r \<noteq> [] else True)"
proof -
  have "any_header_contains h [] \<longleftrightarrow> set (concat (map snd h)) \<noteq> {}" for h
    by (simp only: any_header_contains_iff Contains_Nil simp_thms ex_in_conv)
  then have "any_header_contains h [] \<longleftrightarrow> concat (map snd h) \<noteq> []" for h
    by (simp only: set_empty)
  then show ?thesis
    by (auto simp: Matches_def header_values_def)
qed

theorem Matches_empty_query_witness:
  "Matches example_state example_record [] ''body''
   \<and> Matches example_state example_record [] ''headers''
   \<and> \<not> Matches example_state bare_record [] ''headers''
   \<and> Matches example_state bare_record [] ''anything''"
  using Matches_empty_query [of example_state example_record "''body''"]
    Matches_empty_query [of example_state example_record "''headers''"]
    Matches_empty_query [of example_state bare_record "''headers''"]
    Matches_empty_query [of example_state bare_record "''anything''"]
  by (simp add: header_values_def entries_def map_at_def example_state_def
        example_record_def bare_record_def)

section \<open>Properties of the top lists\<close>

lemma first_greater_None:
  "first_greater g b ys = None \<longleftrightarrow> (\<forall>y\<in>set ys. \<not> g b y)"
  by (induction ys) auto

lemma first_greater_Some:
  "first_greater g b ys = Some i \<Longrightarrow>
     i < length ys \<and> take i ys = takeWhile (\<lambda>y. \<not> g b y) ys
       \<and> drop i ys = dropWhile (\<lambda>y. \<not> g b y) ys"
proof (induction ys arbitrary: i)
  case Nil
  then show ?case by simp
next
  case (Cons y ys)
  show ?case
  proof (cases "g b y")
    case True
    with Cons.prems show ?thesis by simp
  next
    case False
    with Cons.prems obtain j where j: "first_greater g b ys = Some j" "i = Suc j"
      by auto
    from Cons.IH [OF j(1)] False j(2) show ?thesis by simp
  qed
qed

lemma first_greater_take:
  "first_greater g b (take k ys) =
     (case first_greater g b ys of None \<Rightarrow> None | Some i \<Rightarrow> if i < k then Some i else None)"
proof (induction ys arbitrary: k)
  case Nil
  then show ?case by simp
next
  case (Cons y ys)
  show ?case
  proof (cases k)
    case 0
    then show ?thesis by (simp split: option.splits)
  next
    case (Suc k')
    then show ?thesis using Cons.IH [of k'] by (auto split: option.splits)
  qed
qed

lemma mset_put_last: "mset (put_last f b ys) = add_mset b (mset ys)"
proof -
  have "mset (takeWhile (\<lambda>y. f y \<le> f b) ys) + mset (dropWhile (\<lambda>y. f y \<le> f b) ys) = mset ys"
    by (metis mset_append takeWhile_dropWhile_id)
  then show ?thesis by (simp add: put_last_def)
qed

lemma dropWhile_above:
  assumes "sorted (map f ys)" and "y \<in> set (dropWhile (\<lambda>y. f y \<le> f b) ys)"
  shows "f b < f y"
  using assms
proof (induction ys)
  case Nil
  then show ?case by simp
next
  case (Cons a ys)
  show ?case
  proof (cases "f a \<le> f b")
    case True
    with Cons show ?thesis by simp
  next
    case False
    with Cons.prems have "y = a \<or> y \<in> set ys" by simp
    with Cons.prems(1) False show ?thesis by auto
  qed
qed

lemma sorted_put_last:
  assumes "sorted (map f ys)"
  shows "sorted (map f (put_last f b ys))"
proof -
  let ?P = "\<lambda>y. f y \<le> f b"
  have ys: "ys = takeWhile ?P ys @ dropWhile ?P ys" by simp
  have s1: "sorted (map f (takeWhile ?P ys))" and s2: "sorted (map f (dropWhile ?P ys))"
    using assms by (metis ys map_append sorted_append)+
  have lo: "\<forall>x\<in>set (takeWhile ?P ys). f x \<le> f b"
    by (auto dest: set_takeWhileD)
  have hi: "\<forall>y\<in>set (dropWhile ?P ys). f b < f y"
    using dropWhile_above [OF assms] by blast
  show ?thesis
    unfolding put_last_def using s1 s2 lo hi
    by (fastforce simp: sorted_append)
qed

lemma filter_put_last:
  assumes "sorted (map f ys)"
  shows "filter (\<lambda>x. f x = v) (put_last f b ys) =
           filter (\<lambda>x. f x = v) ys @ (if f b = v then [b] else [])"
proof -
  let ?P = "\<lambda>y. f y \<le> f b"
  have ys: "filter (\<lambda>x. f x = v) ys =
      filter (\<lambda>x. f x = v) (takeWhile ?P ys) @ filter (\<lambda>x. f x = v) (dropWhile ?P ys)"
    by (metis filter_append takeWhile_dropWhile_id)
  have hi: "\<forall>y\<in>set (dropWhile ?P ys). f b < f y"
    using dropWhile_above [OF assms] by blast
  show ?thesis
  proof (cases "f b = v")
    case True
    with hi have "filter (\<lambda>x. f x = v) (dropWhile ?P ys) = []"
      by (auto simp: filter_empty_conv)
    with True ys show ?thesis by (simp add: put_last_def)
  next
    case False
    with ys show ?thesis by (simp add: put_last_def)
  qed
qed

lemma sort_key_snoc:
  "sort_key f (xs @ [b]) = put_last f b (sort_key f xs)"
proof (rule properties_for_sort_key)
  show "mset (put_last f b (sort_key f xs)) = mset (xs @ [b])"
    by (simp add: mset_put_last)
  show "sorted (map f (put_last f b (sort_key f xs)))"
    by (rule sorted_put_last) simp
  fix k
  have "filter (\<lambda>x. f x = f k) (put_last f b (sort_key f xs)) =
          filter (\<lambda>x. f x = f k) (xs @ [b])"
    by (simp add: filter_put_last sort_key_stable)
  moreover have "(\<lambda>x. f k = f x) = (\<lambda>x. f x = f k)" by auto
  ultimately show "filter (\<lambda>x. f k = f x) (put_last f b (sort_key f xs)) =
          filter (\<lambda>x. f k = f x) (xs @ [b])"
    by simp
qed


lemma take_insert_bounded:
  assumes "i < k" and "i < length S"
  shows "take k (take i (take k S) @ b # drop i (take k S)) = take k (take i S @ b # drop i S)"
proof -
  from assms have l: "length (take i S) = i" by simp
  have "take k (take i S @ b # drop i S) = take i S @ take (k - i) (b # drop i S)"
    using assms by (simp add: min_def)
  moreover have "take k (take i (take k S) @ b # drop i (take k S))
      = take i S @ take (k - i) (b # take (k - i) (drop i S))"
    using assms by (simp add: min_def drop_take)
  moreover have "take (k - i) (b # take (k - i) (drop i S)) = take (k - i) (b # drop i S)"
    using assms by (cases "k - i") (simp_all add: min_def)
  ultimately show ?thesis by simp
qed

lemma collect_step:
  assumes K: "0 < sint K"
    and g: "\<And>b1 b2. g b1 b2 \<longleftrightarrow> (f b1 :: int) < f b2"
  shows "collectConditionally (Some (take (nat (sint K)) S)) b K g
           = Inr (take (nat (sint K)) (put_last f b S))"
proof -
  let ?k = "nat (sint K)"
  let ?c = "take ?k S"
  have P: "(\<lambda>y. \<not> g b y) = (\<lambda>y. f y \<le> f b)" by (auto simp: g)
  have room: "len_less ?c K \<longleftrightarrow> length ?c < ?k"
    using K by (simp add: len_less_def) linarith
  show ?thesis
  proof (cases "first_greater g b S")
    case None
    then have "\<forall>y\<in>set S. f y \<le> f b" by (auto simp: first_greater_None g linorder_not_less)
    then have pl: "put_last f b S = S @ [b]" by (simp add: put_last_def)
    from None have c: "first_greater g b ?c = None" by (simp add: first_greater_take)
    show ?thesis
    proof (cases "length ?c < ?k")
      case True
      then have "length S < ?k" by (simp add: min_def split: if_splits)
      then show ?thesis using c room True by (simp add: collectConditionally_def pl)
    next
      case False
      then have "?k \<le> length S" by (simp add: min_def split: if_splits)
      then show ?thesis using c room False by (simp add: collectConditionally_def pl)
    qed
  next
    case (Some i)
    from first_greater_Some [OF Some] have i: "i < length S"
      and pl: "put_last f b S = take i S @ b # drop i S"
      by (simp_all add: put_last_def P)
    show ?thesis
    proof (cases "i < ?k")
      case True
      with Some have c: "first_greater g b ?c = Some i" by (simp add: first_greater_take)
      show ?thesis
      proof (cases "length ?c < ?k")
        case lt: True
        then have "length S < ?k" by (simp add: min_def split: if_splits)
        then show ?thesis using c room lt i
          by (simp add: collectConditionally_def pl insert_at_def)
      next
        case ge: False
        then have len: "length ?c = ?k" by (simp add: min_def split: if_splits)
        show ?thesis using c room ge len take_insert_bounded [OF True i, of b]
          by (simp add: collectConditionally_def pl insert_at_def)
      qed
    next
      case False
      with Some have c: "first_greater g b ?c = None" by (simp add: first_greater_take)
      from False i have len: "length ?c = ?k" by simp
      from False i have "take ?k (take i S @ b # drop i S) = ?c" by simp
      then show ?thesis using c room len by (simp add: collectConditionally_def pl)
    qed
  qed
qed

lemma insert_steps_net:
  assumes "i < length c"
  shows "insert_steps (map Some c) i b room = map Some (insert_at c i b room)"
proof -
  have upd: "(take (Suc i) xs @ ys)[i := x] = take i xs @ x # ys" if "i < length xs" for xs ys :: "'b list" and x
    using that by (simp add: take_Suc_conv_app_nth list_update_append)
  show ?thesis
  proof (cases room)
    case True
    have "copy_up (map Some c @ [None]) i = map Some (take (Suc i) c) @ map Some (drop i c)"
      using assms by (simp add: copy_up_def take_map drop_map)
    then have "(copy_up (map Some c @ [None]) i)[i := Some b] = map Some (take i c) @ Some b # map Some (drop i c)"
      using assms upd [of "map Some c"] by (simp add: take_map)
    with True assms show ?thesis by (simp add: insert_steps_def insert_at_def)
  next
    case False
    have "copy_up (map Some c) i = map Some (take (Suc i) c) @ map Some (take (length c - Suc i) (drop i c))"
      using assms by (simp add: copy_up_def take_map drop_map)
    then have "(copy_up (map Some c) i)[i := Some b] = map Some (take i c) @ Some b # map Some (take (length c - Suc i) (drop i c))"
      using assms upd [of "map Some c"] by (simp add: take_map)
    moreover have "length c - i = Suc (length c - Suc i)"
      using assms by simp
    then have "take (length c) (take i c @ b # drop i c) = take i c @ b # take (length c - Suc i) (drop i c)"
      using assms by (simp add: min_def)
    ultimately show ?thesis using False by (simp add: insert_steps_def insert_at_def)
  qed
qed


lemma collectConditionally_top:
  assumes K: "0 < sint K"
    and inv: "top_inv key (nat (sint K)) seen col"
    and g: "\<And>b1 b2. g b1 b2 \<longleftrightarrow> key b2 < key b1"
  shows "collectConditionally col b K g = Inr (top_of key (nat (sint K)) (seen @ [b]))"
proof (cases col)
  case None
  with inv have "seen = []" by (simp add: top_inv_def)
  moreover from K have "\<not> K <s 0" by (simp add: word_sless_alt)
  moreover from K have "take (nat (sint K)) [b] = [b]" by (cases "nat (sint K)") simp_all
  ultimately show ?thesis using None by (simp add: collectConditionally_def top_of_def)
next
  case (Some c)
  with inv have c: "c = take (nat (sint K)) (sort_key (\<lambda>b. - key b) seen)"
    by (simp add: top_inv_def top_of_def)
  have g': "\<And>b1 b2. g b1 b2 \<longleftrightarrow> (\<lambda>b. - key b) b1 < (\<lambda>b. - key b) b2"
    by (simp add: g)
  show ?thesis
    unfolding Some c top_of_def sort_key_snoc
    by (rule collect_step [OF K g'])
qed

lemma Collect_top:
  assumes K: "0 < sint K"
    and size: "top_inv by_size (nat (sint K)) seen (TopBasketsBySize s)"
    and date: "top_inv by_date (nat (sint K)) seen (TopBasketsByDate s)"
  shows "\<exists>s'. Collect s b K = Inr s'
           \<and> TopBasketsBySize s' = Some (top_of by_size (nat (sint K)) (seen @ [b]))
           \<and> TopBasketsByDate s' = Some (top_of by_date (nat (sint K)) (seen @ [b]))"
proof -
  have 1: "collectConditionally (TopBasketsBySize s) b K
             (\<lambda>b1 b2. BasketInfo.RequestsTotalCount b2 <s BasketInfo.RequestsTotalCount b1)
           = Inr (top_of by_size (nat (sint K)) (seen @ [b]))"
    by (rule collectConditionally_top [OF K size]) (simp add: by_size_def word_sless_alt)
  have 2: "collectConditionally (TopBasketsByDate s) b K
             (\<lambda>b1 b2. LastRequestDate b2 <s LastRequestDate b1)
           = Inr (top_of by_date (nat (sint K)) (seen @ [b]))"
    by (rule collectConditionally_top [OF K date]) (simp add: by_date_def word_sless_alt)
  show ?thesis by (simp add: Collect_def Let_def 1 2)
qed

lemma collect_all_top:
  assumes K: "0 < sint K"
  shows "top_inv by_size (nat (sint K)) seen (TopBasketsBySize s) \<Longrightarrow>
         top_inv by_date (nat (sint K)) seen (TopBasketsByDate s) \<Longrightarrow>
         \<exists>s'. collect_all s xs K = Inr s'
           \<and> top_inv by_size (nat (sint K)) (seen @ xs) (TopBasketsBySize s')
           \<and> top_inv by_date (nat (sint K)) (seen @ xs) (TopBasketsByDate s')"
proof (induction xs arbitrary: s seen)
  case Nil
  then show ?case by simp
next
  case (Cons b xs)
  from Collect_top [OF K Cons.prems, of b] obtain s1 where
    s1: "Collect s b K = Inr s1"
      "TopBasketsBySize s1 = Some (top_of by_size (nat (sint K)) (seen @ [b]))"
      "TopBasketsByDate s1 = Some (top_of by_date (nat (sint K)) (seen @ [b]))"
    by blast
  have "top_inv by_size (nat (sint K)) (seen @ [b]) (TopBasketsBySize s1)"
    and "top_inv by_date (nat (sint K)) (seen @ [b]) (TopBasketsByDate s1)"
    by (simp_all add: s1 top_inv_def)
  from Cons.IH [OF this] s1(1) show ?case by simp
qed

lemma top_inv_elems: "top_inv key k seen col \<Longrightarrow> elems col = top_of key k seen"
  by (auto simp: top_inv_def elems_def top_of_def split: option.splits)

lemma collect_all_zero:
  assumes K: "0 < sint K"
  shows "\<exists>s'. collect_all zero_stats xs K = Inr s'
           \<and> elems (TopBasketsBySize s') = top_of by_size (nat (sint K)) xs
           \<and> elems (TopBasketsByDate s') = top_of by_date (nat (sint K)) xs"
proof -
  have "top_inv by_size (nat (sint K)) [] (TopBasketsBySize zero_stats)"
    and "top_inv by_date (nat (sint K)) [] (TopBasketsByDate zero_stats)"
    by (simp_all add: top_inv_def zero_stats_def)
  from collect_all_top [OF K this, of xs] show ?thesis
    by (auto dest: top_inv_elems)
qed

lemma top_of_length: "length (top_of key k xs) = min k (length xs)"
  by (simp add: top_of_def)

lemma top_of_mset: "mset (top_of key k xs) \<subseteq># mset xs"
proof -
  have "mset (take k (sort_key (\<lambda>b. - key b) xs)) \<subseteq># mset (sort_key (\<lambda>b. - key b) xs)"
    by (metis append_take_drop_id mset_append mset_subset_eq_add_left)
  then show ?thesis by (simp add: top_of_def)
qed

lemma top_of_sorted: "sorted_wrt (\<lambda>a b. key b \<le> key a) (top_of key k xs)"
proof -
  have "sorted (map (\<lambda>b. - key b) (take k (sort_key (\<lambda>b. - key b) xs)))"
    by (metis sorted_sort_key sorted_wrt_take take_map)
  then show ?thesis by (simp add: top_of_def sorted_map)
qed

lemma top_of_ties:
  "prefix (filter (\<lambda>b. key b = v) (top_of key k xs)) (filter (\<lambda>b. key b = v) xs)"
proof -
  let ?f = "\<lambda>b. - key b"
  have eq: "(\<lambda>b. key b = v) = (\<lambda>b. ?f b = - v)" by auto
  have "prefix (filter (\<lambda>b. ?f b = - v) (take k (sort_key ?f xs)))
               (filter (\<lambda>b. ?f b = - v) (sort_key ?f xs))"
    by (rule filter_mono_prefix) (rule take_is_prefix)
  then have "prefix (filter (\<lambda>b. ?f b = - v) (take k (sort_key ?f xs)))
               (filter (\<lambda>b. ?f b = - v) xs)"
    by (simp only: sort_key_stable)
  then show ?thesis unfolding top_of_def eq .
qed

section \<open>Properties of the counters and of the average\<close>

lemma Collect_counters:
  assumes "Collect s b K = Inr s'"
  shows "BasketsCount s' = BasketsCount s + 1"
    and "EmptyBasketsCount s' =
           EmptyBasketsCount s + (if BasketInfo.RequestsTotalCount b = 0 then 1 else 0)"
    and "RequestsCount s' = RequestsCount s + BasketInfo.RequestsCount b"
    and "RequestsTotalCount s' = RequestsTotalCount s + BasketInfo.RequestsTotalCount b"
  using assms by (auto simp: Collect_def Let_def split: sum.splits if_splits)

lemma collect_all_counters:
  "collect_all s xs K = Inr s' \<Longrightarrow>
     BasketsCount s' = BasketsCount s + of_nat (length xs)
     \<and> EmptyBasketsCount s' = EmptyBasketsCount s
          + of_nat (length (filter (\<lambda>b. BasketInfo.RequestsTotalCount b = 0) xs))
     \<and> RequestsCount s' = RequestsCount s + sum_list (map BasketInfo.RequestsCount xs)
     \<and> RequestsTotalCount s' = RequestsTotalCount s
          + sum_list (map BasketInfo.RequestsTotalCount xs)"
proof (induction xs arbitrary: s)
  case Nil
  then show ?case by simp
next
  case (Cons b xs)
  from Cons.prems obtain s1 where s1: "Collect s b K = Inr s1" "collect_all s1 xs K = Inr s'"
    by (auto split: sum.splits)
  from Cons.IH [OF s1(2)] Collect_counters [OF s1(1)] show ?case
    by (simp add: algebra_simps)
qed

lemma sdiv_toward_zero:
  "0 < d \<Longrightarrow> n sdiv d = quotient_toward_zero n (d::int)"
  by (auto simp: signed_divide_int_def quotient_toward_zero_def sgn_if)

lemma quotient_bounds:
  assumes "0 < d" "- (2 ^ 63) \<le> n" "n < 2 ^ 63"
  shows "- (2 ^ 63) \<le> quotient_toward_zero n d \<and> quotient_toward_zero n d < 2 ^ 63"
proof (cases "0 \<le> n")
  case True
  have "n div d \<le> n"
    using True int_div_le_self [of n d] by (cases "n = 0") simp_all
  moreover have "0 \<le> n div d"
    using True assms(1) by (simp add: pos_imp_zdiv_nonneg_iff)
  ultimately have "0 \<le> n div d" "n div d \<le> n" by simp_all
  with True assms show ?thesis by (simp add: quotient_toward_zero_def)
next
  case False
  then have "(- n) div d \<le> - n"
    using int_div_le_self [of "- n" d] by simp
  moreover have "0 \<le> (- n) div d"
    using False assms(1) by (simp add: pos_imp_zdiv_nonneg_iff)
  ultimately have "0 \<le> (- n) div d" "(- n) div d \<le> - n" by simp_all
  with False assms show ?thesis by (simp add: quotient_toward_zero_def)
qed

lemma sint_bounds64: "- (2 ^ 63) \<le> sint (w :: 64 word) \<and> sint w < 2 ^ 63"
  using sint_ge [of w] sint_lt [of w] by simp

lemma sint_sub_no_overflow:
  fixes a b :: "64 word"
  assumes "- (2 ^ 63) \<le> sint a - sint b" "sint a - sint b < 2 ^ 63"
  shows "sint (a - b) = sint a - sint b"
  using assms by (simp add: sint_word_ariths signed_take_bit_int_eq_self)

lemma sint_word_of_int64:
  assumes "- (2 ^ 63) \<le> k" "k < 2 ^ 63"
  shows "sint (word_of_int k :: 64 word) = k"
  using assms by (simp add: sint_sbintrunc' signed_take_bit_int_eq_self)

lemma UpdateAvarage_value:
  "\<exists>avg. UpdateAvarage s = Inr (s\<lparr>AvgBasketSize := avg\<rparr>)
     \<and> (denominator s \<le> 0 \<longrightarrow> avg = 0)
     \<and> (0 < denominator s \<and> denominator s < 2 ^ 63 \<longrightarrow>
          sint avg = quotient_toward_zero (sint (RequestsTotalCount s)) (denominator s))"
proof (cases "EmptyBasketsCount s <s BasketsCount s")
  case False
  then have "denominator s \<le> 0" by (simp add: denominator_def word_sless_alt)
  with False show ?thesis by (simp add: UpdateAvarage_def)
next
  case True
  then have pos: "0 < denominator s" by (simp add: denominator_def word_sless_alt)
  from True have "BasketsCount s \<noteq> EmptyBasketsCount s" by auto
  then have nz: "BasketsCount s - EmptyBasketsCount s \<noteq> 0" by simp
  let ?q = "word_of_int (sint (RequestsTotalCount s)
               sdiv sint (BasketsCount s - EmptyBasketsCount s)) :: 64 word"
  have run: "UpdateAvarage s = Inr (s\<lparr>AvgBasketSize := ?q\<rparr>)"
    using True nz by (simp add: UpdateAvarage_def go_div_def)
  have "sint ?q = quotient_toward_zero (sint (RequestsTotalCount s)) (denominator s)"
    if "denominator s < 2 ^ 63"
  proof -
    have d: "sint (BasketsCount s - EmptyBasketsCount s) = denominator s"
      unfolding denominator_def using pos that
      by (intro sint_sub_no_overflow) (simp_all add: denominator_def)
    have "sint ?q = sint (word_of_int (quotient_toward_zero (sint (RequestsTotalCount s)) (denominator s)) :: 64 word)"
      by (simp add: d sdiv_toward_zero [OF pos])
    also have "\<dots> = quotient_toward_zero (sint (RequestsTotalCount s)) (denominator s)"
      using quotient_bounds [OF pos, of "sint (RequestsTotalCount s)"] sint_bounds64 [of "RequestsTotalCount s"]
      by (intro sint_word_of_int64) simp_all
    finally show ?thesis .
  qed
  with run pos show ?thesis by auto
qed


section \<open>Claim about the average\<close>

text \<open>
  C8. \<open>UpdateAvarage\<close> never panics and changes only the average. In every state the
  average is 0 when baskets count minus empty baskets count is not positive. When that
  denominator is positive and is itself an \<^verbatim>\<open>int\<close>, a number below \<open>2 ^ 63\<close>, as it is
  whenever the count of empty baskets is not negative, the average is the total request
  count divided by it, the quotient rounded toward zero. When the subtraction overflows,
  the average is the quotient by the wrapped difference. For snapshots with total counts
  5, 0 and 7 the average is 12 / 2 = 6.
\<close>

theorem UpdateAvarage_average:
  "(\<exists>avg. UpdateAvarage s = Inr (s\<lparr>AvgBasketSize := avg\<rparr>)
      \<and> (denominator s \<le> 0 \<longrightarrow> avg = 0)
      \<and> (0 < denominator s \<and> denominator s < 2 ^ 63 \<longrightarrow>
           sint avg = quotient_toward_zero (sint (RequestsTotalCount s)) (denominator s))
      \<and> (0 < denominator s \<longrightarrow>
           avg = word_of_int (sint (RequestsTotalCount s)
                   sdiv sint (BasketsCount s - EmptyBasketsCount s))))
   \<and> (0 \<le> sint (EmptyBasketsCount s) \<longrightarrow> denominator s < 2 ^ 63)
   \<and> (\<forall>xs K s1. map BasketInfo.RequestsTotalCount xs = [5, 0, 7]
         \<and> collect_all zero_stats xs K = Inr s1
         \<longrightarrow> UpdateAvarage s1 = Inr (s1\<lparr>AvgBasketSize := 6\<rparr>))"
proof (intro conjI allI impI)
  obtain avg where a: "UpdateAvarage s = Inr (s\<lparr>AvgBasketSize := avg\<rparr>)"
      "denominator s \<le> 0 \<longrightarrow> avg = 0"
      "0 < denominator s \<and> denominator s < 2 ^ 63 \<longrightarrow>
           sint avg = quotient_toward_zero (sint (RequestsTotalCount s)) (denominator s)"
    using UpdateAvarage_value [of s] by blast
  have "avg = word_of_int (sint (RequestsTotalCount s)
                   sdiv sint (BasketsCount s - EmptyBasketsCount s))"
    if "0 < denominator s"
  proof -
    from that have lt: "EmptyBasketsCount s <s BasketsCount s"
      by (simp add: denominator_def word_sless_alt)
    then have "BasketsCount s \<noteq> EmptyBasketsCount s" by auto
    then have "BasketsCount s - EmptyBasketsCount s \<noteq> 0" by simp
    with lt have "UpdateAvarage s = Inr (s\<lparr>AvgBasketSize :=
        word_of_int (sint (RequestsTotalCount s)
          sdiv sint (BasketsCount s - EmptyBasketsCount s))\<rparr>)"
      by (simp add: UpdateAvarage_def go_div_def)
    with a(1) have "AvgBasketSize (s\<lparr>AvgBasketSize := avg\<rparr>) =
        AvgBasketSize (s\<lparr>AvgBasketSize :=
          word_of_int (sint (RequestsTotalCount s)
            sdiv sint (BasketsCount s - EmptyBasketsCount s))\<rparr>)"
      by simp
    then show ?thesis by simp
  qed
  with a show "\<exists>avg. UpdateAvarage s = Inr (s\<lparr>AvgBasketSize := avg\<rparr>)
      \<and> (denominator s \<le> 0 \<longrightarrow> avg = 0)
      \<and> (0 < denominator s \<and> denominator s < 2 ^ 63 \<longrightarrow>
           sint avg = quotient_toward_zero (sint (RequestsTotalCount s)) (denominator s))
      \<and> (0 < denominator s \<longrightarrow>
           avg = word_of_int (sint (RequestsTotalCount s)
                   sdiv sint (BasketsCount s - EmptyBasketsCount s)))"
    by blast
next
  assume "0 \<le> sint (EmptyBasketsCount s)"
  with sint_bounds64 [of "BasketsCount s"] show "denominator s < 2 ^ 63"
    by (simp add: denominator_def)
next
  fix xs K s1
  assume a: "map BasketInfo.RequestsTotalCount xs = [5, 0, 7]
         \<and> collect_all zero_stats xs K = Inr s1"
  then obtain a b c where xs: "xs = [a, b, c]"
    and t: "BasketInfo.RequestsTotalCount a = 5" "BasketInfo.RequestsTotalCount b = 0"
           "BasketInfo.RequestsTotalCount c = 7"
    by (auto simp: map_eq_Cons_conv)
  from a collect_all_counters [of zero_stats xs K s1]
  have "BasketsCount s1 = 3" "EmptyBasketsCount s1 = 1" "RequestsTotalCount s1 = 12"
    by (simp_all add: xs t zero_stats_def)
  then show "UpdateAvarage s1 = Inr (s1\<lparr>AvgBasketSize := 6\<rparr>)"
    by (simp add: UpdateAvarage_def go_div_def word_sless_alt signed_divide_int_def)
qed

theorem UpdateAvarage_average_witness:
  "0 < denominator stats_minus7 \<and> denominator stats_minus7 < 2 ^ 63
   \<and> (\<exists>avg. UpdateAvarage stats_minus7 = Inr (stats_minus7\<lparr>AvgBasketSize := avg\<rparr>)
         \<and> sint avg = - 3)
   \<and> UpdateAvarage zero_stats = Inr zero_stats
   \<and> (\<exists>s1. collect_all zero_stats [snapshot_a, snapshot_b, snapshot_c] 2 = Inr s1
         \<and> UpdateAvarage s1 = Inr (s1\<lparr>AvgBasketSize := 6\<rparr>))"
proof -
  have d: "denominator stats_minus7 = 2"
    by (simp add: denominator_def stats_minus7_def zero_stats_def)
  have q: "quotient_toward_zero (sint (RequestsTotalCount stats_minus7)) 2 = - 3"
    by (simp add: quotient_toward_zero_def stats_minus7_def zero_stats_def)
  have z: "denominator zero_stats = 0"
    by (simp add: denominator_def zero_stats_def)
  have zz: "zero_stats\<lparr>AvgBasketSize := 0\<rparr> = zero_stats"
    by (simp add: zero_stats_def)
  have "0 < sint (2 :: 64 word)" by simp
  from collect_all_zero [OF this, of "[snapshot_a, snapshot_b, snapshot_c]"]
  obtain s1 where s1: "collect_all zero_stats [snapshot_a, snapshot_b, snapshot_c] 2 = Inr s1"
    by blast
  have m: "map BasketInfo.RequestsTotalCount [snapshot_a, snapshot_b, snapshot_c] = [5, 0, 7]"
    by (simp add: snapshot_a_def snapshot_b_def snapshot_c_def)
  have e: "UpdateAvarage s1 = Inr (s1\<lparr>AvgBasketSize := 6\<rparr>)"
    using UpdateAvarage_average [of zero_stats, THEN conjunct2, THEN conjunct2, rule_format,
        of "[snapshot_a, snapshot_b, snapshot_c]" 2 s1] s1 m
    by (simp del: collect_all.simps)
  from UpdateAvarage_average [of stats_minus7, THEN conjunct1]
  obtain avg where 1: "UpdateAvarage stats_minus7 = Inr (stats_minus7\<lparr>AvgBasketSize := avg\<rparr>)"
    "0 < denominator stats_minus7 \<and> denominator stats_minus7 < 2 ^ 63 \<longrightarrow>
       sint avg = quotient_toward_zero (sint (RequestsTotalCount stats_minus7))
                    (denominator stats_minus7)"
    by (elim conjE exE)
  from 1(2) have 2: "sint avg = - 3" by (simp add: d q)
  from UpdateAvarage_average [of zero_stats, THEN conjunct1]
  obtain avg0 where 3: "UpdateAvarage zero_stats = Inr (zero_stats\<lparr>AvgBasketSize := avg0\<rparr>)"
    "denominator zero_stats \<le> 0 \<longrightarrow> avg0 = 0"
    by (elim conjE exE)
  from 3 have 4: "UpdateAvarage zero_stats = Inr zero_stats" by (simp add: z zz)
  show ?thesis
    apply (intro conjI)
        apply (simp add: d)
       apply (simp add: d)
      apply (rule exI [of _ avg], simp add: 1(1) 2)
     apply (rule 4)
    apply (rule exI [of _ s1], simp only: s1 e simp_thms)
    done
qed

theorem UpdateAvarage_average_counterexample:
  "UpdateAvarage overflow_stats = Inr (overflow_stats\<lparr>AvgBasketSize := 1\<rparr>)
   \<and> denominator overflow_stats = 9223372036854775808
   \<and> quotient_toward_zero (sint (RequestsTotalCount overflow_stats))
        (denominator overflow_stats) = - 1"
  by (simp add: UpdateAvarage_def go_div_def overflow_stats_def zero_stats_def denominator_def
        quotient_toward_zero_def word_sless_alt signed_divide_int_def)

section \<open>Claim about the top lists\<close>

text \<open>
  For a bound of at least 1, collecting any sequence of snapshots into the zero value
  does not panic, and each top list is the first \<open>K\<close> snapshots of the sequence sorted
  by its key, largest first, equal keys in the order collected. Hence it is a part of
  the input of length \<open>min K n\<close>, its keys never increase, and among the snapshots with
  one key it holds those collected first, in the order collected.
\<close>

lemma top_lists_positive_bound:
  assumes K: "0 < sint K"
  shows "\<exists>s. collect_all zero_stats xs K = Inr s
     \<and> elems (TopBasketsBySize s) = top_of by_size (nat (sint K)) xs
     \<and> elems (TopBasketsByDate s) = top_of by_date (nat (sint K)) xs
     \<and> mset (elems (TopBasketsBySize s)) \<subseteq># mset xs
     \<and> mset (elems (TopBasketsByDate s)) \<subseteq># mset xs
     \<and> length (elems (TopBasketsBySize s)) = min (nat (sint K)) (length xs)
     \<and> length (elems (TopBasketsByDate s)) = min (nat (sint K)) (length xs)
     \<and> sorted_wrt (\<lambda>a b. by_size b \<le> by_size a) (elems (TopBasketsBySize s))
     \<and> sorted_wrt (\<lambda>a b. by_date b \<le> by_date a) (elems (TopBasketsByDate s))
     \<and> (\<forall>v. prefix (filter (\<lambda>b. by_size b = v) (elems (TopBasketsBySize s)))
                     (filter (\<lambda>b. by_size b = v) xs))
     \<and> (\<forall>v. prefix (filter (\<lambda>b. by_date b = v) (elems (TopBasketsByDate s)))
                     (filter (\<lambda>b. by_date b = v) xs))"
proof -
  from collect_all_zero [OF K, of xs] obtain s where
    s: "collect_all zero_stats xs K = Inr s"
      "elems (TopBasketsBySize s) = top_of by_size (nat (sint K)) xs"
      "elems (TopBasketsByDate s) = top_of by_date (nat (sint K)) xs"
    by blast
  show ?thesis
    by (intro exI [of _ s] conjI allI)
       (simp_all only: s top_of_mset top_of_length top_of_sorted top_of_ties)
qed

text \<open>
  C3. The top list by size is a part of the input of size \<open>min K n\<close>, ordered by
  non-increasing total count, equal counts in first-seen order, and likewise the list by
  date. With the bound 0 the code keeps one snapshot: the branch for the nil slice
  appends without the test \<^verbatim>\<open>len(col) < size\<close> that the other branches make.
\<close>

theorem Collect_bound_zero:
  "\<exists>s. collect_all zero_stats [snapshot_a] 0 = Inr s
       \<and> TopBasketsBySize s = Some [snapshot_a]
       \<and> TopBasketsByDate s = Some [snapshot_a]
       \<and> length (elems (TopBasketsBySize s)) \<noteq> min 0 (length [snapshot_a])"
  by (simp add: Collect_def collectConditionally_def zero_stats_def elems_def Let_def)

section \<open>Properties of the header methods and of the request built by Forward\<close>

lemma canonical_names:
  "CanonicalMIMEHeaderKey ''Connection'' = ''Connection''"
  "CanonicalMIMEHeaderKey ''Upgrade'' = ''Upgrade''"
  "CanonicalMIMEHeaderKey ''TE'' = ''Te''"
  "CanonicalMIMEHeaderKey ''X-Do-Not-Forward'' = ''X-Do-Not-Forward''"
  "CanonicalMIMEHeaderKey ''Content-Type'' = ''Content-Type''"
  by code_simp+

lemma map_of_hdr_Add:
  "map_of (hdr_Add h key val) =
     (map_of h)(CanonicalMIMEHeaderKey key \<mapsto> values_of h (CanonicalMIMEHeaderKey key) @ [val])"
  by (simp add: hdr_Add_def Let_def AList.update_conv')

lemma map_of_hdr_Set:
  "map_of (hdr_Set h key val) = (map_of h)(CanonicalMIMEHeaderKey key \<mapsto> [val])"
  by (simp add: hdr_Set_def AList.update_conv')

lemma map_of_hdr_Del:
  "map_of (hdr_Del h key) = (map_of h)(CanonicalMIMEHeaderKey key := None)"
  by (simp add: hdr_Del_def AList.delete_conv')

lemma update_map_frame [simp]:
  "length (maps (update_map a f st)) = length (maps st)"
  "logged (update_map a f st) = logged st"
  "map_at (update_map a f st) a' =
     (if a' = a \<and> a < length (maps st) then f (map_at st a) else map_at st a')"
  by (auto simp: update_map_def map_at_def)

lemma add_values_frame [simp]:
  "length (maps (add_values a name vals st)) = length (maps st)"
  "logged (add_values a name vals st) = logged st"
  "a' \<noteq> a \<Longrightarrow> map_at (add_values a name vals st) a' = map_at st a'"
  by (induction vals arbitrary: st) (simp_all add: Header_Add_def)

lemma copy_headers_frame [simp]:
  "length (maps (copy_headers a hdr st)) = length (maps st)"
  "logged (copy_headers a hdr st) = logged st"
  "a' \<noteq> a \<Longrightarrow> map_at (copy_headers a hdr st) a' = map_at st a'"
  by (induction a hdr st rule: copy_headers.induct) simp_all

lemma grown_Nil [simp]: "grown h k [] = map_of h k"
  by (simp add: grown_def values_of_def split: option.splits)

lemma add_values_lookup:
  assumes "a < length (maps st)"
  shows "map_of (map_at (add_values a name vals st) a) k =
           (if CanonicalMIMEHeaderKey name = k then grown (map_at st a) k vals
            else map_of (map_at st a) k)"
  using assms
proof (induction vals arbitrary: st)
  case Nil
  then show ?case by simp
next
  case (Cons v vals)
  let ?st = "Header_Add a name v st"
  have len: "a < length (maps ?st)" using Cons.prems by (simp add: Header_Add_def)
  have at: "map_at ?st a = hdr_Add (map_at st a) name v"
    using Cons.prems by (simp add: Header_Add_def)
  show ?case
    using Cons.IH [OF len]
    by (simp add: at map_of_hdr_Add grown_def values_of_def)
qed

lemma carried_Cons:
  "carried ((name, vals) # rest) k =
     (if CanonicalMIMEHeaderKey name = k then vals @ carried rest k else carried rest k)"
  by (simp add: carried_def)

lemma grown_grown:
  "grown h k (vs @ ws) =
     (case grown h k vs of None \<Rightarrow> (if ws = [] then None else Some ws)
      | Some xs \<Rightarrow> Some (xs @ ws))"
  by (auto simp: grown_def values_of_def split: option.splits)

lemma copy_headers_lookup:
  assumes "a < length (maps st)"
  shows "map_of (map_at (copy_headers a hdr st) a) k = grown (map_at st a) k (carried hdr k)"
  using assms
proof (induction a hdr st rule: copy_headers.induct)
  case (1 a st)
  then show ?case by (simp add: carried_def)
next
  case (2 a name vals rest st)
  let ?st = "add_values a name vals st"
  have len: "a < length (maps ?st)" using "2.prems" by simp
  have "map_of (map_at (copy_headers a rest ?st) a) k = grown (map_at ?st a) k (carried rest k)"
    by (rule "2.IH" [OF len])
  moreover have "grown (map_at ?st a) k (carried rest k) =
      grown (map_at st a) k (carried ((name, vals) # rest) k)"
    using add_values_lookup [OF "2.prems", of name vals k]
    by (auto simp: carried_Cons grown_def values_of_def split: option.splits if_splits)
  ultimately show ?case by simp
qed

lemma new_map_frame:
  "new_map st = (a, st1) \<Longrightarrow>
     a = length (maps st) \<and> maps st1 = maps st @ [[]] \<and> logged st1 = logged st"
  by (auto simp: new_map_def)

lemma NewRequest_Inr:
  assumes "NewRequest lib method urlStr body st = Inr (fr, st1)"
  shows "req_Header fr = length (maps st)"
    and "maps st1 = maps st @ [[]]"
    and "logged st1 = logged st"
    and "req_Method fr = (if method = [] then ''GET'' else method)"
    and "req_Body fr = body"
  using assms
  by (auto simp: NewRequest_def Let_def new_map_def split: if_splits sum.splits)

lemma map_at_fresh:
  "maps st1 = maps st @ [[]] \<Longrightarrow>
     map_at st1 a = (if a < length (maps st) then map_at st a else [])"
  by (auto simp: map_at_def nth_append)

lemma entries_fresh:
  "maps st1 = maps st @ [[]] \<Longrightarrow> entries st1 h = entries st h"
  by (auto simp: entries_def map_at_def nth_append less_Suc_eq split: option.splits)

lemma Header_Del_frame [simp]:
  "length (maps (Header_Del a key st)) = length (maps st)"
  "logged (Header_Del a key st) = logged st"
  "map_at (Header_Del a key st) a' =
     (if a' = a \<and> a < length (maps st) then hdr_Del (map_at st a) key else map_at st a')"
  by (simp_all add: Header_Del_def)

lemma Header_Set_frame [simp]:
  "length (maps (Header_Set a key val st)) = length (maps st)"
  "logged (Header_Set a key val st) = logged st"
  "map_at (Header_Set a key val st) a' =
     (if a' = a \<and> a < length (maps st) then hdr_Set (map_at st a) key val else map_at st a')"
  by (simp_all add: Header_Set_def)

lemma forward_request_Inr:
  assumes "forward_request lib r config basket st = Inr (fr, st')"
  obtains u st1 where
    "forward_target lib r config basket = Inr u"
    "NewRequest lib (Method r) (URL_String lib u) (Body r) st = Inr (fr, st1)"
    "st' = Header_Set (req_Header fr) DoNotForwardHeader ''1''
             (forwardHeadersCleanup fr
                (copy_headers (req_Header fr) (entries st1 (Header r)) st1))"
  using assms
  by (auto simp: forward_request_def Let_def split: sum.splits prod.splits)

lemma forward_request_frame:
  assumes "forward_request lib r config basket st = Inr (fr, st')"
  shows "req_Header fr = length (maps st)"
    and "length (maps st') = Suc (length (maps st))"
    and "logged st' = logged st"
    and "a < length (maps st) \<Longrightarrow> map_at st' a = map_at st a"
proof -
  from assms obtain u st1 where
    nr: "NewRequest lib (Method r) (URL_String lib u) (Body r) st = Inr (fr, st1)"
    and st': "st' = Header_Set (req_Header fr) DoNotForwardHeader ''1''
             (forwardHeadersCleanup fr
                (copy_headers (req_Header fr) (entries st1 (Header r)) st1))"
    by (rule forward_request_Inr)
  note n = NewRequest_Inr [OF nr]
  show "req_Header fr = length (maps st)" by (rule n(1))
  show "length (maps st') = Suc (length (maps st))"
    by (simp add: st' forwardHeadersCleanup_def Let_def n(2))
  show "logged st' = logged st"
    by (simp add: st' forwardHeadersCleanup_def Let_def n(3))
  show "map_at st' a = map_at st a" if "a < length (maps st)"
    using that by (simp add: st' forwardHeadersCleanup_def Let_def n(1) map_at_fresh [OF n(2)])
qed

lemma forward_request_header:
  assumes "forward_request lib r config basket st = Inr (fr, st')"
  shows "map_of (map_at st' (req_Header fr)) k =
           (if k = ''X-Do-Not-Forward'' then Some [''1'']
            else if k = ''Connection'' \<or> k = ''Upgrade'' \<or> k = ''Te'' then None
            else if carried (entries st (Header r)) k = [] then None
            else Some (carried (entries st (Header r)) k))"
proof -
  from assms obtain u st1 where
    nr: "NewRequest lib (Method r) (URL_String lib u) (Body r) st = Inr (fr, st1)"
    and st': "st' = Header_Set (req_Header fr) DoNotForwardHeader ''1''
             (forwardHeadersCleanup fr
                (copy_headers (req_Header fr) (entries st1 (Header r)) st1))"
    by (rule forward_request_Inr)
  note n = NewRequest_Inr [OF nr]
  let ?a = "req_Header fr"
  let ?hdr = "entries st (Header r)"
  have a: "?a < length (maps st1)" by (simp add: n)
  have empty: "map_at st1 ?a = []" by (simp add: map_at_fresh [OF n(2)] n(1))
  have e: "entries st1 (Header r) = ?hdr" by (rule entries_fresh [OF n(2)])
  have copied: "map_of (map_at (copy_headers ?a ?hdr st1) ?a) k = grown [] k (carried ?hdr k)" for k
    using copy_headers_lookup [OF a, of ?hdr k] by (simp add: empty)
  show ?thesis
    using a
    by (simp add: st' e forwardHeadersCleanup_def Let_def DoNotForwardHeader_def
          map_of_hdr_Set map_of_hdr_Del canonical_names copied grown_def values_of_def)
qed

lemma simple_parse_up_x: "simple_parse ''http://up/x/'' = Inr up_x"
  by (simp add: simple_parse_def HasPrefix_def up_x_def)

lemma forward_target_Inr:
  assumes "ParseRequestURI lib (ForwardURL config) = Inr u"
  shows "forward_target lib r config basket =
     Inr (u\<lparr>url_Path :=
              (if ExpandPath config \<and> length (''/'' @ basket) < length (Path r)
               then TrimSuffix (url_Path u) ''/'' @ TrimPrefix (Path r) (''/'' @ basket)
               else url_Path u),
            url_RawQuery :=
              (if Query r \<noteq> [] \<and> url_RawQuery u \<noteq> [] then url_RawQuery u @ ''&'' @ Query r
               else if Query r \<noteq> [] then Query r
               else url_RawQuery u)\<rparr>)"
  using assms by (simp add: forward_target_def Let_def expandURL_def)

section \<open>Claims about Forward\<close>

text \<open>
  C5. If the configured forward URL does not parse as a request URI, \<open>Forward\<close> returns
  an error and a nil response; it builds no response of any kind, and it leaves the
  state as it was.
\<close>

theorem Forward_invalid_url:
  assumes "ParseRequestURI lib (ForwardURL config) = Inl err"
  shows "Forward lib r client config basket st =
           ((None, Some (''invalid forward URL: '' @ ForwardURL config @ '' - '' @ err)), st)"
  using assms by (simp add: Forward_def forward_request_def forward_target_def)

theorem Forward_invalid_url_witness:
  "(\<exists>err. ParseRequestURI simple_lib (ForwardURL unparsable_config) = Inl err)
   \<and> fst (fst (Forward simple_lib example_record ok_client unparsable_config ''b1'' example_state))
       = None
   \<and> snd (fst (Forward simple_lib example_record ok_client unparsable_config ''b1'' example_state))
       \<noteq> None
   \<and> snd (Forward simple_lib example_record ok_client unparsable_config ''b1'' example_state)
       = example_state"
proof -
  obtain err where e: "ParseRequestURI simple_lib (ForwardURL unparsable_config) = Inl err"
    by (simp add: simple_lib_def simple_parse_def unparsable_config_def example_config_def
          HasPrefix_def)
  from Forward_invalid_url [OF e, of example_record ok_client "''b1''" example_state] e
  show ?thesis by auto
qed



lemma TrimPrefix_other: "\<not> HasPrefix s p \<Longrightarrow> TrimPrefix s p = s"
  by (simp add: TrimPrefix_def)

lemma TrimSuffix_other: "\<not> HasSuffix s x \<Longrightarrow> TrimSuffix s x = s"
  by (simp add: TrimSuffix_def)

lemma carried_canonical:
  assumes "distinct (map fst hdr)"
    and "\<forall>e. e \<in> set hdr \<longrightarrow> CanonicalMIMEHeaderKey (fst e) = fst e"
  shows "carried hdr k = values_of hdr k"
  using assms
proof (induction hdr)
  case Nil
  then show ?case by (simp add: carried_def values_of_def)
next
  case (Cons e hdr)
  obtain name vals where e: "e = (name, vals)" by (cases e)
  from Cons.prems have IH: "carried hdr k = values_of hdr k"
    by (intro Cons.IH) auto
  from Cons.prems have c: "CanonicalMIMEHeaderKey name = name" by (simp add: e)
  show ?case
  proof (cases "name = k")
    case True
    with Cons.prems have "k \<notin> fst ` set hdr" by (simp add: e)
    then have "map_of hdr k = None" by (simp add: map_of_eq_None_iff)
    then have "carried hdr k = []" using IH by (simp add: values_of_def)
    with True c show ?thesis by (simp add: e carried_Cons values_of_def)
  next
    case False
    with c IH show ?thesis by (simp add: e carried_Cons values_of_def)
  qed
qed

lemma forward_request_succeeds:
  assumes "ParseRequestURI lib (ForwardURL config) = Inr u"
    and "forward_target lib r config basket = Inr u'"
    and "validMethod (if Method r = [] then ''GET'' else Method r)"
    and "URL_Parse lib (URL_String lib u') = Inr v"
  shows "\<exists>fr st'. forward_request lib r config basket st = Inr (fr, st')"
  using assms
  by (simp add: forward_request_def NewRequest_def Let_def new_map_def split: prod.splits)

text \<open>
  C7. Whenever \<open>Forward\<close> builds a request, its header holds under each canonical name
  the captured values of the names with that canonical form, each value kept and in
  order (the captured value lists themselves when the captured names are canonical and
  distinct, as in a captured map), except that \<open>Connection\<close>, \<open>Upgrade\<close> and \<open>TE\<close>
  are absent and \<open>X-Do-Not-Forward\<close> holds the single value \<open>1\<close> whatever was
  captured under it. The body is the captured body. The method is the captured method,
  but an empty captured method is sent as \<open>GET\<close>.
\<close>

theorem Forward_outbound_request:
  assumes "forward_request lib r config basket st = Inr (fr, st')"
  shows "(\<forall>k. map_of (map_at st' (req_Header fr)) k =
            (if k = ''X-Do-Not-Forward'' then Some [''1'']
             else if k = ''Connection'' \<or> k = ''Upgrade'' \<or> k = ''Te'' then None
             else if carried (entries st (Header r)) k = [] then None
             else Some (carried (entries st (Header r)) k)))
     \<and> (distinct (map fst (entries st (Header r)))
          \<and> (\<forall>e. e \<in> set (entries st (Header r)) \<longrightarrow> CanonicalMIMEHeaderKey (fst e) = fst e)
        \<longrightarrow> (\<forall>k. carried (entries st (Header r)) k = values_of (entries st (Header r)) k))
     \<and> req_Method fr = (if Method r = [] then ''GET'' else Method r)
     \<and> req_Body fr = Body r"
proof (intro conjI allI impI)
  fix k
  show "map_of (map_at st' (req_Header fr)) k =
            (if k = ''X-Do-Not-Forward'' then Some [''1'']
             else if k = ''Connection'' \<or> k = ''Upgrade'' \<or> k = ''Te'' then None
             else if carried (entries st (Header r)) k = [] then None
             else Some (carried (entries st (Header r)) k))"
    by (rule forward_request_header [OF assms])
next
  fix k
  assume "distinct (map fst (entries st (Header r)))
          \<and> (\<forall>e. e \<in> set (entries st (Header r)) \<longrightarrow> CanonicalMIMEHeaderKey (fst e) = fst e)"
  then show "carried (entries st (Header r)) k = values_of (entries st (Header r)) k"
    by (intro carried_canonical) simp_all
next
  from assms obtain u st1 where
    nr: "NewRequest lib (Method r) (URL_String lib u) (Body r) st = Inr (fr, st1)"
    by (rule forward_request_Inr)
  from NewRequest_Inr(4,5) [OF nr]
  show "req_Method fr = (if Method r = [] then ''GET'' else Method r)"
    and "req_Body fr = Body r" .
qed

lemma forward_request_hop:
  "forward_request simple_lib example_record example_config ''b1'' hop_state
     = Inr (sent_request,
            \<lparr>maps = [[(''X-Tag'', [''beta'', ''alpha'']), (''Connection'', [''close'']),
                       (''Te'', [''trailers'']), (''X-Do-Not-Forward'', [''0''])],
                      [(''X-Tag'', [''beta'', ''alpha'']), (''X-Do-Not-Forward'', [''1''])]],
              logged = []\<rparr>)"
  by code_simp

lemma forward_request_example:
  "forward_request simple_lib example_record example_config ''b1'' example_state
     = Inr (sent_request\<lparr>req_Header := 2\<rparr>,
            \<lparr>maps = [[(''X-Tag'', [''beta'', ''alpha''])], [],
                      [(''X-Tag'', [''beta'', ''alpha'']), (''X-Do-Not-Forward'', [''1''])]],
              logged = []\<rparr>)"
  by code_simp

theorem Forward_outbound_request_witness:
  "\<exists>fr st'. forward_request simple_lib example_record example_config ''b1'' hop_state
                = Inr (fr, st')
     \<and> map_of (map_at st' (req_Header fr)) ''X-Tag'' = Some [''beta'', ''alpha'']
     \<and> map_of (map_at st' (req_Header fr)) ''Connection'' = None
     \<and> map_of (map_at st' (req_Header fr)) ''Te'' = None
     \<and> map_of (map_at st' (req_Header fr)) ''X-Do-Not-Forward'' = Some [''1'']
     \<and> req_Method fr = ''GET'' \<and> req_Body fr = ''hello''"
proof -
  let ?hdr = "entries hop_state (Header example_record)"
  have hdr: "?hdr = [(''X-Tag'', [''beta'', ''alpha'']), (''Connection'', [''close'']),
                     (''Te'', [''trailers'']), (''X-Do-Not-Forward'', [''0''])]"
    by (simp add: entries_def map_at_def hop_state_def example_record_def)
  have d: "distinct (map fst ?hdr)" by (simp add: hdr)
  have c: "\<forall>e. e \<in> set ?hdr \<longrightarrow> CanonicalMIMEHeaderKey (fst e) = fst e"
  proof -
    have "CanonicalMIMEHeaderKey ''X-Tag'' = ''X-Tag''" "CanonicalMIMEHeaderKey ''Te'' = ''Te''"
      by code_simp+
    then show ?thesis by (auto simp: hdr canonical_names)
  qed
  have m: "Method example_record = ''GET''" "Body example_record = ''hello''"
    by (simp_all add: example_record_def)
  note t = Forward_outbound_request [OF forward_request_hop]
  from t d c have v: "carried ?hdr ''X-Tag'' = values_of ?hdr ''X-Tag''" by blast
  have x: "values_of ?hdr ''X-Tag'' = [''beta'', ''alpha'']" by (simp add: hdr values_of_def)
  from t have l: "map_of (map_at \<lparr>maps = [[(''X-Tag'', [''beta'', ''alpha'']), (''Connection'', [''close'']),
                       (''Te'', [''trailers'']), (''X-Do-Not-Forward'', [''0''])],
                      [(''X-Tag'', [''beta'', ''alpha'']), (''X-Do-Not-Forward'', [''1''])]],
              logged = []\<rparr> (req_Header sent_request)) k =
            (if k = ''X-Do-Not-Forward'' then Some [''1'']
             else if k = ''Connection'' \<or> k = ''Upgrade'' \<or> k = ''Te'' then None
             else if carried ?hdr k = [] then None
             else Some (carried ?hdr k))" for k
    by blast
  from t have mb: "req_Method sent_request = (if Method example_record = [] then ''GET'' else Method example_record)"
     "req_Body sent_request = Body example_record" by blast+
  show ?thesis
    apply (rule exI [of _ sent_request])
    apply (rule exI)
    apply (rule conjI [OF forward_request_hop])
    using l [of "''X-Tag''"] l [of "''Connection''"] l [of "''Te''"] l [of "''X-Do-Not-Forward''"]
      mb v x m
    by simp
qed

theorem Forward_outbound_counterexample:
  "Method methodless_record = []
   \<and> entries lower_state (Header methodless_record) = [(''x-tag'', [''v''])]
   \<and> forward_request simple_lib methodless_record example_config ''b1'' lower_state
       = Inr (sent_request,
              \<lparr>maps = [[(''x-tag'', [''v''])],
                        [(''X-Tag'', [''v'']), (''X-Do-Not-Forward'', [''1''])]],
                logged = []\<rparr>)
   \<and> req_Method sent_request = ''GET''
   \<and> req_Method sent_request \<noteq> Method methodless_record"
  by code_simp

text \<open>
  C1. When the request has been built and the client fails on it, \<open>Forward\<close> returns no
  error and a response with status 502, the header \<open>Content-Type: text/plain\<close> and the
  body \<open>Failed to forward request: \<close> followed by the text of the transport error. The
  error is not returned. The body does not name the basket: the basket is named, with the
  error, in the warning that is logged.
\<close>

theorem Forward_bad_gateway:
  assumes "forward_request lib r config basket st = Inr (fr, st1)"
    and "client fr (map_at st1 (req_Header fr)) = Inl err"
  shows "Forward lib r client config basket st =
           ((Some \<lparr>resp_StatusCode = 502,
                    resp_Header = [(''Content-Type'', [''text/plain''])],
                    resp_Body = ''Failed to forward request: '' @ err\<rparr>,
             None),
            st1\<lparr>logged := logged st @
                   [''[warn] failed to forward request for basket: '' @ basket
                      @ '' - '' @ err]\<rparr>)"
proof -
  have "hdr_Set [] ''Content-Type'' ''text/plain'' = [(''Content-Type'', [''text/plain''])]"
    by (simp add: hdr_Set_def canonical_names)
  moreover have "logged st1 = logged st"
    by (rule forward_request_frame(3) [OF assms(1)])
  ultimately show ?thesis
    using assms by (simp add: Forward_def Let_def StatusBadGateway_def)
qed

theorem Forward_bad_gateway_witness:
  "fst (Forward simple_lib example_record failing_client example_config ''b1'' example_state)
     = (Some \<lparr>resp_StatusCode = 502,
               resp_Header = [(''Content-Type'', [''text/plain''])],
               resp_Body = ''Failed to forward request: '' @ refused\<rparr>, None)
   \<and> logged (snd (Forward simple_lib example_record failing_client example_config ''b1''
                     example_state))
     = [''[warn] failed to forward request for basket: b1 - '' @ refused]"
proof -
  from Forward_bad_gateway [OF forward_request_example, of failing_client refused]
  show ?thesis by (simp add: example_state_def failing_client_def)
qed

theorem Forward_bad_gateway_counterexample:
  "fst (Forward simple_lib example_record failing_client example_config ''b1'' example_state)
     = (Some \<lparr>resp_StatusCode = 502,
               resp_Header = [(''Content-Type'', [''text/plain''])],
               resp_Body = ''Failed to forward request: '' @ refused\<rparr>, None)
   \<and> \<not> occurs_in ''b1'' (''Failed to forward request: '' @ refused)"
  unfolding Contains_occurs [symmetric] by code_simp

lemma Forward_maps:
  "maps (snd (Forward lib r client config basket st)) =
     (case forward_request lib r config basket st of
        Inl err \<Rightarrow> maps st | Inr (fr, st1) \<Rightarrow> maps st1)"
  by (simp add: Forward_def Let_def split: sum.splits prod.splits)

lemma Forward_keeps_maps:
  "take (length (maps st)) (maps (snd (Forward lib r client config basket st))) = maps st"
proof (cases "forward_request lib r config basket st")
  case (Inl err)
  then show ?thesis by (simp add: Forward_maps)
next
  case (Inr p)
  obtain fr st1 where p: "p = (fr, st1)" by (cases p)
  note f = forward_request_frame [OF Inr [unfolded p]]
  have "take (length (maps st)) (maps st1) = maps st"
  proof (rule nth_equalityI)
    show "length (take (length (maps st)) (maps st1)) = length (maps st)"
      by (simp add: f(2))
    fix a
    assume "a < length (take (length (maps st)) (maps st1))"
    then have a: "a < length (maps st)" by simp
    from f(4) [OF a] a show "take (length (maps st)) (maps st1) ! a = maps st ! a"
      by (simp add: map_at_def f(2))
  qed
  then show ?thesis by (simp add: Forward_maps Inr p)
qed

text \<open>
  C10. \<open>Forward\<close> does not change its receiver. The fields \<open>Date\<close>, \<open>ContentLength\<close>,
  \<open>Body\<close>, \<open>Method\<close>, \<open>Path\<close> and \<open>Query\<close> are immutable values that \<open>Forward\<close> only
  reads; the field \<open>Header\<close> refers to a map, and that map, like every map that existed
  before the call, has the same names and value lists afterwards. The removals and the
  assignment of the marker go to the header of the new request, which is a map that did
  not exist before the call and is not the receiver's.
\<close>

theorem Forward_receiver_unchanged:
  assumes "case Header r of None \<Rightarrow> True | Some a \<Rightarrow> a < length (maps st)"
  shows "entries (snd (Forward lib r client config basket st)) (Header r) = entries st (Header r)
     \<and> take (length (maps st)) (maps (snd (Forward lib r client config basket st))) = maps st
     \<and> (\<forall>fr st1. forward_request lib r config basket st = Inr (fr, st1) \<longrightarrow>
           req_Header fr = length (maps st) \<and> Header r \<noteq> Some (req_Header fr))"
proof (intro conjI allI impI)
  let ?st' = "snd (Forward lib r client config basket st)"
  show k: "take (length (maps st)) (maps ?st') = maps st"
    by (rule Forward_keeps_maps)
  show "entries ?st' (Header r) = entries st (Header r)"
  proof (cases "Header r")
    case None
    then show ?thesis by (simp add: entries_def)
  next
    case (Some a)
    with assms have a: "a < length (maps st)" by simp
    from k have "take (length (maps st)) (maps ?st') ! a = maps st ! a" by simp
    with a have "maps ?st' ! a = maps st ! a" by simp
    moreover from k have "length (maps st) \<le> length (maps ?st')"
      by (metis length_take min.cobounded1)
    ultimately show ?thesis using a by (simp add: entries_def map_at_def Some)
  qed
next
  fix fr st1
  assume f: "forward_request lib r config basket st = Inr (fr, st1)"
  from forward_request_frame(1) [OF f]
  show "req_Header fr = length (maps st)" .
  with assms show "Header r \<noteq> Some (req_Header fr)" by (auto split: option.splits)
qed

theorem Forward_receiver_unchanged_witness:
  "entries (snd (Forward simple_lib example_record failing_client example_config ''b1''
                   example_state)) (Header example_record)
     = [(''X-Tag'', [''beta'', ''alpha''])]
   \<and> take 2 (maps (snd (Forward simple_lib example_record failing_client example_config ''b1''
                          example_state)))
     = maps example_state
   \<and> Header example_record \<noteq> Some (req_Header (sent_request\<lparr>req_Header := 2\<rparr>))"
proof -
  have w: "case Header example_record of None \<Rightarrow> True
           | Some a \<Rightarrow> a < length (maps example_state)"
    by (simp add: example_record_def example_state_def)
  have e: "entries example_state (Header example_record) = [(''X-Tag'', [''beta'', ''alpha''])]"
    by (simp add: entries_def map_at_def example_record_def example_state_def)
  have l: "length (maps example_state) = 2" by (simp add: example_state_def)
  from Forward_receiver_unchanged [OF w, of simple_lib failing_client example_config "''b1''"]
    forward_request_example e l
  show ?thesis by auto
qed

section \<open>Claims about the URL of the forwarded request\<close>

lemma forward_request_built:
  assumes "forward_request lib r config basket st = Inr (fr, st')"
  shows "\<exists>u' v. forward_target lib r config basket = Inr u'
           \<and> URL_Parse lib (URL_String lib u') = Inr v
           \<and> req_URL fr = v\<lparr>url_Host := removeEmptyPort (url_Host v)\<rparr>"
proof -
  from assms obtain u' st1 where
    t: "forward_target lib r config basket = Inr u'"
    and nr: "NewRequest lib (Method r) (URL_String lib u') (Body r) st = Inr (fr, st1)"
    by (rule forward_request_Inr)
  from nr obtain v where "URL_Parse lib (URL_String lib u') = Inr v"
    and "req_URL fr = v\<lparr>url_Host := removeEmptyPort (url_Host v)\<rparr>"
    by (auto simp: NewRequest_def Let_def new_map_def split: if_splits sum.splits)
  with t show ?thesis by blast
qed

lemma Forward_answer:
  assumes "forward_request lib r config basket st = Inr (fr, st')"
  shows "fst (Forward lib r client config basket st)
           = answer_of (client fr (map_at st' (req_Header fr)))"
proof -
  have "hdr_Set [] ''Content-Type'' ''text/plain'' = [(''Content-Type'', [''text/plain''])]"
    by (simp add: hdr_Set_def canonical_names)
  then show ?thesis
    using assms
    by (simp add: Forward_def Let_def StatusBadGateway_def answer_of_def split: sum.splits)
qed

lemma forward_request_iff:
  assumes "forward_target lib r config basket = Inr u'"
  shows "(\<exists>fr st'. forward_request lib r config basket st = Inr (fr, st'))
         \<longleftrightarrow> validMethod (if Method r = [] then ''GET'' else Method r)
              \<and> (\<exists>v. URL_Parse lib (URL_String lib u') = Inr v)"
  using assms
  by (auto simp: forward_request_def NewRequest_def Let_def new_map_def
        split: sum.splits prod.splits)

lemma simple_lib_examples:
  "ParseRequestURI simple_lib ''http://up/x/'' = Inr up_x"
  "URL_String simple_lib sent_url = ''http://up/x/y/z?k=1''"
  "URL_Parse simple_lib ''http://up/x/y/z?k=1'' = Inr sent_url"
  "URL_String simple_lib up_x = ''http://up/x/''"
  "URL_Parse simple_lib ''http://up/x/'' = Inr up_x"
  "ParseRequestURI simple_lib ''http://up/x?a=b'' = Inr (merged_url\<lparr>url_Path := ''/x'', url_RawQuery := ''a=b''\<rparr>)"
  "URL_String simple_lib merged_url = ''http://up/x/y/z?a=b&k=1''"
  "URL_Parse simple_lib ''http://up/x/y/z?a=b&k=1'' = Inr merged_url"
  by code_simp+



text \<open>
  C6. \<open>Forward\<close> merges the queries in the URL that it prints and hands to
  \<^verbatim>\<open>http.NewRequest\<close>: the query of the forward URL, an ampersand and the captured query
  when both are non-empty; the captured query when only it is non-empty; the query of the
  forward URL, unchanged, when the captured query is empty. The URL of the request is what
  \<^verbatim>\<open>url.Parse\<close> reads back from that text, and its query is the query read back: a
  captured query with a \<^verbatim>\<open>#\<close> in it is cut there.
\<close>

theorem Forward_merge_query:
  "ParseRequestURI lib (ForwardURL config) = Inr u \<longrightarrow>
     (\<exists>u'. forward_target lib r config basket = Inr u'
        \<and> url_RawQuery u' =
            (if Query r \<noteq> [] \<and> url_RawQuery u \<noteq> [] then url_RawQuery u @ ''&'' @ Query r
             else if Query r \<noteq> [] then Query r
             else url_RawQuery u)
        \<and> ((\<exists>fr st'. forward_request lib r config basket st = Inr (fr, st'))
             \<longleftrightarrow> validMethod (if Method r = [] then ''GET'' else Method r)
                  \<and> (\<exists>v. URL_Parse lib (URL_String lib u') = Inr v))
        \<and> (\<forall>fr st'. forward_request lib r config basket st = Inr (fr, st') \<longrightarrow>
              (\<exists>v. URL_Parse lib (URL_String lib u') = Inr v
                 \<and> req_URL fr = v\<lparr>url_Host := removeEmptyPort (url_Host v)\<rparr>
                 \<and> url_RawQuery (req_URL fr) = url_RawQuery v)
              \<and> fst (Forward lib r client config basket st)
                   = answer_of (client fr (map_at st' (req_Header fr)))))"
proof
  assume p: "ParseRequestURI lib (ForwardURL config) = Inr u"
  let ?u' = "u\<lparr>url_Path :=
              (if ExpandPath config \<and> length (''/'' @ basket) < length (Path r)
               then TrimSuffix (url_Path u) ''/'' @ TrimPrefix (Path r) (''/'' @ basket)
               else url_Path u),
            url_RawQuery :=
              (if Query r \<noteq> [] \<and> url_RawQuery u \<noteq> [] then url_RawQuery u @ ''&'' @ Query r
               else if Query r \<noteq> [] then Query r
               else url_RawQuery u)\<rparr>"
  have t: "forward_target lib r config basket = Inr ?u'"
    by (rule forward_target_Inr [OF p])
  have built: "(\<exists>v. URL_Parse lib (URL_String lib ?u') = Inr v
                  \<and> req_URL fr = v\<lparr>url_Host := removeEmptyPort (url_Host v)\<rparr>
                  \<and> url_RawQuery (req_URL fr) = url_RawQuery v)
               \<and> fst (Forward lib r client config basket st)
                    = answer_of (client fr (map_at st' (req_Header fr)))"
    if f: "forward_request lib r config basket st = Inr (fr, st')" for fr st'
    using forward_request_built [OF f] Forward_answer [OF f, of client] t by auto
  show "\<exists>u'. forward_target lib r config basket = Inr u'
        \<and> url_RawQuery u' =
            (if Query r \<noteq> [] \<and> url_RawQuery u \<noteq> [] then url_RawQuery u @ ''&'' @ Query r
             else if Query r \<noteq> [] then Query r
             else url_RawQuery u)
        \<and> ((\<exists>fr st'. forward_request lib r config basket st = Inr (fr, st'))
             \<longleftrightarrow> validMethod (if Method r = [] then ''GET'' else Method r)
                  \<and> (\<exists>v. URL_Parse lib (URL_String lib u') = Inr v))
        \<and> (\<forall>fr st'. forward_request lib r config basket st = Inr (fr, st') \<longrightarrow>
              (\<exists>v. URL_Parse lib (URL_String lib u') = Inr v
                 \<and> req_URL fr = v\<lparr>url_Host := removeEmptyPort (url_Host v)\<rparr>
                 \<and> url_RawQuery (req_URL fr) = url_RawQuery v)
              \<and> fst (Forward lib r client config basket st)
                   = answer_of (client fr (map_at st' (req_Header fr))))"
    apply (rule exI [of _ ?u'])
    apply (intro conjI allI impI)
        apply (rule t)
       apply simp
      apply (rule forward_request_iff [OF t])
     apply (erule built [THEN conjunct1])
    apply (erule built [THEN conjunct2])
    done
qed

theorem Forward_merge_query_witness:
  "map_sum id url_RawQuery (forward_target simple_lib example_record query_config ''b1'')
     = Inr ''a=b&k=1''
   \<and> map_sum id url_RawQuery (forward_target simple_lib example_record example_config ''b1'')
     = Inr ''k=1''
   \<and> map_sum id url_RawQuery (forward_target simple_lib bare_record query_config ''b1'')
     = Inr ''a=b''
   \<and> (\<exists>fr st'. forward_request simple_lib example_record query_config ''b1'' example_state
                   = Inr (fr, st')
          \<and> url_RawQuery (req_URL fr) = ''a=b&k=1''
          \<and> fst (Forward simple_lib example_record ok_client query_config ''b1'' example_state)
               = (Some ok_response, None))"
proof -
  let ?u = "merged_url\<lparr>url_Path := ''/x'', url_RawQuery := ''a=b''\<rparr>"
  have u: "ParseRequestURI simple_lib (ForwardURL query_config) = Inr ?u"
    by (simp add: query_config_def example_config_def simple_lib_examples)
  have p: "ParseRequestURI simple_lib (ForwardURL example_config) = Inr up_x"
    by (simp add: example_config_def simple_lib_examples)
  have f: "Query example_record = ''k=1''" "Query bare_record = []" "url_RawQuery up_x = []"
      "Method example_record = ''GET''" "url_RawQuery ?u = ''a=b''"
    by (simp_all add: example_record_def bare_record_def up_x_def)
  have tm: "forward_target simple_lib example_record query_config ''b1'' = Inr merged_url"
    by code_simp
  have vm: "validMethod (if Method example_record = [] then ''GET'' else Method example_record)"
    unfolding f by code_simp
  note t = Forward_merge_query [of simple_lib _ _ _ "''b1''" example_state ok_client]
  from t [of query_config ?u example_record, THEN mp, OF u]
  obtain u' where a:
    "forward_target simple_lib example_record query_config ''b1'' = Inr u'"
    "url_RawQuery u' =
       (if Query example_record \<noteq> [] \<and> url_RawQuery ?u \<noteq> []
        then url_RawQuery ?u @ ''&'' @ Query example_record
        else if Query example_record \<noteq> [] then Query example_record else url_RawQuery ?u)"
    "(\<exists>fr st'. forward_request simple_lib example_record query_config ''b1'' example_state
         = Inr (fr, st'))
     \<longleftrightarrow> validMethod (if Method example_record = [] then ''GET'' else Method example_record)
          \<and> (\<exists>v. URL_Parse simple_lib (URL_String simple_lib u') = Inr v)"
    "\<forall>fr st'. forward_request simple_lib example_record query_config ''b1'' example_state
         = Inr (fr, st') \<longrightarrow>
       (\<exists>v. URL_Parse simple_lib (URL_String simple_lib u') = Inr v
          \<and> req_URL fr = v\<lparr>url_Host := removeEmptyPort (url_Host v)\<rparr>
          \<and> url_RawQuery (req_URL fr) = url_RawQuery v)
       \<and> fst (Forward simple_lib example_record ok_client query_config ''b1'' example_state)
            = answer_of (ok_client fr (map_at st' (req_Header fr)))"
    by (elim conjE exE)
  from a(1) tm have u': "u' = merged_url" by simp
  have rb: "URL_Parse simple_lib (URL_String simple_lib merged_url) = Inr merged_url"
    by (simp add: simple_lib_examples)
  from a(3) vm rb obtain fr st' where 1:
    "forward_request simple_lib example_record query_config ''b1'' example_state = Inr (fr, st')"
    unfolding u' by blast
  from a(4) [rule_format, OF 1] rb
  have 2: "url_RawQuery (req_URL fr) = url_RawQuery merged_url"
    "fst (Forward simple_lib example_record ok_client query_config ''b1'' example_state)
       = answer_of (ok_client fr (map_at st' (req_Header fr)))"
    unfolding u' by auto
  have 3: "map_sum id url_RawQuery (forward_target simple_lib example_record query_config ''b1'')
     = Inr ''a=b&k=1''"
    using a(1,2) f by simp
  from t [of example_config up_x example_record, THEN mp, OF p]
  obtain u2 where b: "forward_target simple_lib example_record example_config ''b1'' = Inr u2"
    "url_RawQuery u2 =
       (if Query example_record \<noteq> [] \<and> url_RawQuery up_x \<noteq> []
        then url_RawQuery up_x @ ''&'' @ Query example_record
        else if Query example_record \<noteq> [] then Query example_record else url_RawQuery up_x)"
    by (elim conjE exE)
  have 4: "map_sum id url_RawQuery (forward_target simple_lib example_record example_config ''b1'')
     = Inr ''k=1''"
    using b f by simp
  from t [of query_config ?u bare_record, THEN mp, OF u]
  obtain u3 where c: "forward_target simple_lib bare_record query_config ''b1'' = Inr u3"
    "url_RawQuery u3 =
       (if Query bare_record \<noteq> [] \<and> url_RawQuery ?u \<noteq> []
        then url_RawQuery ?u @ ''&'' @ Query bare_record
        else if Query bare_record \<noteq> [] then Query bare_record else url_RawQuery ?u)"
    by (elim conjE exE)
  have 5: "map_sum id url_RawQuery (forward_target simple_lib bare_record query_config ''b1'')
     = Inr ''a=b''"
    using c f by simp
  have 6: "url_RawQuery merged_url = ''a=b&k=1''" by (simp add: merged_url_def)
  have 7: "answer_of (ok_client fr (map_at st' (req_Header fr))) = (Some ok_response, None)"
    by (simp add: ok_client_def answer_of_def)
  show ?thesis
    apply (intro conjI)
       apply (rule 3)
      apply (rule 4)
     apply (rule 5)
    apply (rule exI [of _ fr], rule exI [of _ st'])
    apply (simp add: 1 2 6 7)
    done
qed

theorem Forward_merge_query_counterexample:
  "Query hash_record = ''k=1#f''
   \<and> ParseRequestURI fragment_lib (ForwardURL query_config)
       = Inr (merged_url\<lparr>url_Path := ''/x'', url_RawQuery := ''a=b''\<rparr>)
   \<and> map_sum id url_RawQuery (forward_target fragment_lib hash_record query_config ''b1'')
       = Inr ''a=b&k=1#f''
   \<and> map_sum id (URL_String fragment_lib)
        (forward_target fragment_lib hash_record query_config ''b1'')
       = Inr ''http://up/x/y/z?a=b&k=1#f''
   \<and> map_sum id (url_RawQuery \<circ> req_URL \<circ> fst)
        (forward_request fragment_lib hash_record query_config ''b1'' example_state)
       = Inr ''a=b&k=1''"
  by code_simp

end
